theory Spec2Isabelle
  imports Main
begin

section \<open>File caching: the cache, partition and file models\<close>

text \<open>
  A shallow embedding of \<^verbatim>\<open>mayan/apps/file_caching/models.py\<close>. The three Django models
  are records; the database tables, the storage backends, the lock service, the clock and
  the settings are fields of one explicit state, the \<open>world\<close>. Every method takes the world
  and returns the outcome together with the world it leaves behind, so that what a raised
  exception leaves on disk and in the tables can be stated. Event emission
  (\<^verbatim>\<open>method_event\<close>) and logging have no effect on this state and are left out.
\<close>

subsection \<open>Exceptions\<close>

datatype storage_op = Open | Save | Delete | Size | Close | Write

datatype error =
    LockError           \<comment> \<open>the lock service could not hand out the lock\<close>
  | RuntimeError        \<comment> \<open>\<^verbatim>\<open>Too many cache prune attempts failed.\<close>\<close>
  | KeyError            \<comment> \<open>the storage registry has no such name\<close>
  | DoesNotExist        \<comment> \<open>a query for one row found none\<close>
  | IntegrityError      \<comment> \<open>a uniqueness constraint of the tables rejected a row\<close>
  | StorageError storage_op  \<comment> \<open>this call of the storage backend failed\<close>
  | ImportError         \<comment> \<open>a defined storage names no backend class\<close>
  | CallerError         \<comment> \<open>raised by the body of the caller's \<^verbatim>\<open>with\<close> block\<close>

subsection \<open>Models\<close>

record cache =
  cache_pk :: "nat option"          \<comment> \<open>\<^verbatim>\<open>None\<close> until the row is first saved\<close>
  defined_storage_name :: string
  maximum_size :: int

record cache_partition =
  partition_pk :: nat
  partition_cache :: nat            \<comment> \<open>foreign key to the cache\<close>
  partition_name :: string

record cache_partition_file =
  file_pk :: nat
  file_partition :: nat             \<comment> \<open>foreign key to the partition\<close>
  datetime :: nat                   \<comment> \<open>\<^verbatim>\<open>auto_now_add\<close>\<close>
  filename :: string
  file_size :: nat                  \<comment> \<open>\<^verbatim>\<open>PositiveIntegerField\<close>, default 0\<close>

record defined_storage =
  dotted_path :: string
  label :: string
  name :: string

subsection \<open>The world\<close>

record world =
  caches :: "cache list"
  partitions :: "cache_partition list"
  files :: "cache_partition_file list"
  registry :: "string \<rightharpoonup> defined_storage"
  objects :: "string \<times> string \<rightharpoonup> string"
    \<comment> \<open>the bytes stored by each backend, by defined storage name and key\<close>
  faults :: "bool list"
    \<comment> \<open>the outcome of the coming backend calls: \<open>True\<close> makes a call raise\<close>
  locks :: "string list"            \<comment> \<open>names of the locks that are held\<close>
  clock :: nat
  maximum_prune_attempts :: int     \<comment> \<open>\<^verbatim>\<open>setting_maximum_prune_attempts.value\<close>\<close>

type_synonym 'a result = "(error + 'a) \<times> world"

datatype mode = RB | WB

datatype caller = Writes string | Raises

subsection \<open>The storage backend\<close>

text \<open>
  Modelled from the spec: the storage backend classes are not part of the sources. The
  contract of section 6 is \<^verbatim>\<open>open\<close>, \<^verbatim>\<open>save\<close>, \<^verbatim>\<open>delete\<close> (no failure on an absent key),
  \<^verbatim>\<open>exists\<close> and \<^verbatim>\<open>size\<close>, each of which may fail with a backend error. A failing call
  leaves the stored bytes as they are. Opening needs the object to exist (the comment in
  \<^verbatim>\<open>create_file\<close>: opening for writing does not create files), and opening for writing
  truncates it.
\<close>

definition io_fault :: "world \<Rightarrow> bool \<times> world" where
  "io_fault w = (case faults w of [] \<Rightarrow> (False, w) | b # bs \<Rightarrow> (b, w\<lparr>faults := bs\<rparr>))"

definition storage_delete :: "string \<Rightarrow> string \<Rightarrow> world \<Rightarrow> unit result" where
  "storage_delete st key w =
     (case io_fault w of (b, w1) \<Rightarrow>
        if b then (Inl (StorageError Delete), w1)
        else (Inr (), w1\<lparr>objects := (objects w1)((st, key) := None)\<rparr>))"

definition storage_save :: "string \<Rightarrow> string \<Rightarrow> string \<Rightarrow> world \<Rightarrow> unit result" where
  "storage_save st key content w =
     (case io_fault w of (b, w1) \<Rightarrow>
        if b then (Inl (StorageError Save), w1)
        else (Inr (), w1\<lparr>objects := (objects w1)((st, key) \<mapsto> content)\<rparr>))"

definition storage_open :: "string \<Rightarrow> string \<Rightarrow> mode \<Rightarrow> world \<Rightarrow> (string \<times> string) result" where
  "storage_open st key m w =
     (case io_fault w of (b, w1) \<Rightarrow>
        if b then (Inl (StorageError Open), w1)
        else (case objects w1 (st, key) of
                None \<Rightarrow> (Inl (StorageError Open), w1)
              | Some old \<Rightarrow>
                  (case m of
                     RB \<Rightarrow> (Inr (st, key), w1)
                   | WB \<Rightarrow> (Inr (st, key), w1\<lparr>objects := (objects w1)((st, key) \<mapsto> [])\<rparr>))))"

definition storage_size :: "string \<Rightarrow> string \<Rightarrow> world \<Rightarrow> nat result" where
  "storage_size st key w =
     (case io_fault w of (b, w1) \<Rightarrow>
        if b then (Inl (StorageError Size), w1)
        else (case objects w1 (st, key) of
                None \<Rightarrow> (Inl (StorageError Size), w1)
              | Some bs \<Rightarrow> (Inr (length bs), w1)))"

definition stream_close :: "string \<times> string \<Rightarrow> world \<Rightarrow> unit result" where
  "stream_close h w =
     (case io_fault w of (b, w1) \<Rightarrow>
        if b then (Inl (StorageError Close), w1) else (Inr (), w1))"

text \<open>
  The body of the caller's \<^verbatim>\<open>with\<close> block, run at the \<^verbatim>\<open>yield\<close>: it writes bytes to the
  stream it was handed, or raises.
\<close>

definition caller_body :: "caller \<Rightarrow> string \<times> string \<Rightarrow> world \<Rightarrow> unit result" where
  "caller_body act h w =
     (case act of
        Raises \<Rightarrow> (Inl CallerError, w)
      | Writes bs \<Rightarrow>
          (case io_fault w of (b, w1) \<Rightarrow>
             if b then (Inl (StorageError Write), w1)
             else (case objects w1 h of
                     None \<Rightarrow> (Inl (StorageError Write), w1)
                   | Some old \<Rightarrow> (Inr (), w1\<lparr>objects := (objects w1)(h \<mapsto> old @ bs)\<rparr>))))"

subsection \<open>The lock service\<close>

text \<open>
  Modelled from the spec: \<^verbatim>\<open>LockingBackend\<close> is not part of the sources. Section 6:
  \<^verbatim>\<open>acquire(name)\<close> gives a lock or fails with a lock error, \<^verbatim>\<open>release()\<close> frees it; the
  locks are not reentrant (section 5). Locks held by other callers are names that are in
  \<open>locks\<close> from the start.
\<close>

definition acquire_lock :: "string \<Rightarrow> world \<Rightarrow> string result" where
  "acquire_lock nm w =
     (if nm \<in> set (locks w) then (Inl LockError, w)
      else (Inr nm, w\<lparr>locks := nm # locks w\<rparr>))"

definition release :: "string \<Rightarrow> world \<Rightarrow> world" where
  "release nm w = w\<lparr>locks := removeAll nm (locks w)\<rparr>"

subsection \<open>The storage registry\<close>

text \<open>
  Modelled from the spec: \<^verbatim>\<open>DefinedStorage\<close> is not part of the sources. \<^verbatim>\<open>get\<close> looks a
  name up in the registry and raises \<^verbatim>\<open>KeyError\<close> when it is missing;
  \<^verbatim>\<open>get_storage_instance\<close> imports the class at \<^verbatim>\<open>dotted_path\<close>, which fails for the empty
  path of the placeholder. A storage instance is identified by the name it was defined
  under.
\<close>

definition DefinedStorage_get :: "world \<Rightarrow> string \<Rightarrow> error + defined_storage" where
  "DefinedStorage_get w nm =
     (case registry w nm of None \<Rightarrow> Inl KeyError | Some d \<Rightarrow> Inr d)"

definition get_storage_instance :: "defined_storage \<Rightarrow> error + string" where
  "get_storage_instance d = (if dotted_path d = [] then Inl ImportError else Inr (name d))"

subsection \<open>Rows and foreign keys\<close>

definition get_partition :: "world \<Rightarrow> nat \<Rightarrow> error + cache_partition" where
  "get_partition w k =
     (case find (\<lambda>p. partition_pk p = k) (partitions w) of
        None \<Rightarrow> Inl DoesNotExist | Some p \<Rightarrow> Inr p)"

definition get_cache :: "world \<Rightarrow> nat \<Rightarrow> error + cache" where
  "get_cache w k =
     (case find (\<lambda>c. cache_pk c = Some k) (caches w) of
        None \<Rightarrow> Inl DoesNotExist | Some c \<Rightarrow> Inr c)"

text \<open>Python's \<^verbatim>\<open>'{}'.format\<close> of a primary key.\<close>

function str_nat :: "nat \<Rightarrow> string" where
  "str_nat n =
     (if n < 10 then [''0123456789'' ! n]
      else str_nat (n div 10) @ [''0123456789'' ! (n mod 10)])"
  by pat_completeness auto
termination
  by (relation "measure id") auto

definition str_pk :: "nat option \<Rightarrow> string" where
  "str_pk k = (case k of None \<Rightarrow> ''None'' | Some n \<Rightarrow> str_nat n)"

subsection \<open>Cache: queries\<close>

definition get_files :: "world \<Rightarrow> cache \<Rightarrow> cache_partition_file list" where
  "get_files w self =
     filter (\<lambda>f. list_ex (\<lambda>p. partition_pk p = file_partition f
                              \<and> Some (partition_cache p) = cache_pk self) (partitions w))
       (files w)"

definition get_defined_storage :: "world \<Rightarrow> cache \<Rightarrow> error + defined_storage" where
  "get_defined_storage w self =
     (case DefinedStorage_get w (defined_storage_name self) of
        Inr d \<Rightarrow> Inr d
      | Inl e \<Rightarrow>
          if e = KeyError
          then Inr \<lparr>dotted_path = '''', label = ''Unknown'', name = ''unknown''\<rparr>
          else Inl e)"

definition get_total_size :: "world \<Rightarrow> cache \<Rightarrow> int" where
  "get_total_size w self = int (sum_list (map file_size (get_files w self)))"

definition cache_label :: "world \<Rightarrow> cache \<Rightarrow> error + string" where
  "cache_label w self =
     (case get_defined_storage w self of Inl e \<Rightarrow> Inl e | Inr d \<Rightarrow> Inr (label d))"

definition storage :: "world \<Rightarrow> cache \<Rightarrow> error + string" where
  "storage w self =
     (case get_defined_storage w self of Inl e \<Rightarrow> Inl e | Inr d \<Rightarrow> get_storage_instance d)"

text \<open>
  \<^verbatim>\<open>earliest()\<close> orders by the \<^verbatim>\<open>get_latest_by\<close> field, \<^verbatim>\<open>datetime\<close>, and takes the first
  row; on an empty query set it raises \<^verbatim>\<open>DoesNotExist\<close>. Among rows of equal
  \<^verbatim>\<open>datetime\<close> the first of the table is taken.
\<close>

definition earliest :: "cache_partition_file list \<Rightarrow> error + cache_partition_file" where
  "earliest fs =
     (case fs of
        [] \<Rightarrow> Inl DoesNotExist
      | f # r \<Rightarrow> Inr (fold (\<lambda>g m. if datetime g < datetime m then g else m) r f))"

subsection \<open>Partition: names\<close>

definition get_combined_filename :: "string \<Rightarrow> string \<Rightarrow> string" where
  "get_combined_filename parent fname = parent @ ''-'' @ fname"

definition get_full_filename :: "cache_partition \<Rightarrow> string \<Rightarrow> string" where
  "get_full_filename self fname = get_combined_filename (partition_name self) fname"

definition get_file_lock_name :: "world \<Rightarrow> cache_partition \<Rightarrow> string \<Rightarrow> error + string" where
  "get_file_lock_name w self fname =
     (case get_cache w (partition_cache self) of
        Inl e \<Rightarrow> Inl e
      | Inr c \<Rightarrow>
          Inr (''cache_partition-file-'' @ str_pk (cache_pk c) @ ''-''
                 @ str_nat (partition_pk self) @ ''-'' @ fname))"

subsection \<open>File\<close>

definition lock_manager_get_lock_name :: "world \<Rightarrow> cache_partition_file \<Rightarrow> error + string" where
  "lock_manager_get_lock_name w self =
     (case get_partition w (file_partition self) of
        Inl e \<Rightarrow> Inl e
      | Inr p \<Rightarrow> get_file_lock_name w p (filename self))"

text \<open>
  Modelled from the spec: the decorator \<^verbatim>\<open>locked_class_method\<close> is not part of the
  sources. Section 4.1: each operation runs under the lock named by the file's cache,
  partition and filename, released on every exit; the flag \<^verbatim>\<open>_acquire_lock=False\<close> skips
  the acquisition for a caller that holds the lock already.
\<close>

definition locked_class_method ::
  "(cache_partition_file \<Rightarrow> world \<Rightarrow> 'a result) \<Rightarrow> bool \<Rightarrow> cache_partition_file \<Rightarrow> world \<Rightarrow> 'a result"
where
  "locked_class_method function acquire self w =
     (if acquire then
        (case lock_manager_get_lock_name w self of
           Inl e \<Rightarrow> (Inl e, w)
         | Inr nm \<Rightarrow>
             (case acquire_lock nm w of
                (Inl e, w1) \<Rightarrow> (Inl e, w1)
              | (Inr lock, w1) \<Rightarrow>
                  (case function self w1 of (r, w2) \<Rightarrow> (r, release lock w2))))
      else function self w)"

text \<open>\<^verbatim>\<open>self.partition.cache.storage\<close> and \<^verbatim>\<open>self.full_filename\<close>.\<close>

definition file_location :: "world \<Rightarrow> cache_partition_file \<Rightarrow> error + string \<times> string" where
  "file_location w self =
     (case get_partition w (file_partition self) of
        Inl e \<Rightarrow> Inl e
      | Inr p \<Rightarrow>
          (case get_cache w (partition_cache p) of
             Inl e \<Rightarrow> Inl e
           | Inr c \<Rightarrow>
               (case storage w c of
                  Inl e \<Rightarrow> Inl e
                | Inr st \<Rightarrow> Inr (st, get_combined_filename (partition_name p) (filename self)))))"

text \<open>\<^verbatim>\<open>Model.delete\<close> and \<^verbatim>\<open>Model.save\<close> on the table of files.\<close>

definition File_Model_delete :: "cache_partition_file \<Rightarrow> world \<Rightarrow> world" where
  "File_Model_delete self w = w\<lparr>files := filter (\<lambda>g. file_pk g \<noteq> file_pk self) (files w)\<rparr>"

definition File_Model_save :: "cache_partition_file \<Rightarrow> world \<Rightarrow> unit result" where
  "File_Model_save self w =
     (if list_ex (\<lambda>g. file_pk g \<noteq> file_pk self \<and> file_partition g = file_partition self
                       \<and> filename g = filename self) (files w)
      then (Inl IntegrityError, w)
      else if list_ex (\<lambda>g. file_pk g = file_pk self) (files w)
      then (Inr (), w\<lparr>files := map (\<lambda>g. if file_pk g = file_pk self then self else g) (files w)\<rparr>)
      else (Inr (), w\<lparr>files := files w @ [self]\<rparr>))"

definition delete_body :: "cache_partition_file \<Rightarrow> world \<Rightarrow> unit result" where
  "delete_body self w =
     (case file_location w self of
        Inl e \<Rightarrow> (Inl e, w)
      | Inr (st, key) \<Rightarrow>
          (case storage_delete st key w of
             (Inl e, w1) \<Rightarrow> (Inl e, w1)
           | (Inr u, w1) \<Rightarrow> (Inr (), File_Model_delete self w1)))"

definition CachePartitionFile_delete :: "bool \<Rightarrow> cache_partition_file \<Rightarrow> world \<Rightarrow> unit result" where
  "CachePartitionFile_delete acquire self w = locked_class_method delete_body acquire self w"

definition open_body :: "mode \<Rightarrow> cache_partition_file \<Rightarrow> world \<Rightarrow> (string \<times> string) result" where
  "open_body m self w =
     (case file_location w self of
        Inl e \<Rightarrow> (Inl e, w)
      | Inr (st, key) \<Rightarrow> storage_open st key m w)"

definition CachePartitionFile_open ::
  "mode \<Rightarrow> bool \<Rightarrow> cache_partition_file \<Rightarrow> world \<Rightarrow> (string \<times> string) result" where
  "CachePartitionFile_open m acquire self w = locked_class_method (open_body m) acquire self w"

definition close_body :: "(string \<times> string) option \<Rightarrow> cache_partition_file \<Rightarrow> world \<Rightarrow> unit result" where
  "close_body storage_object self w =
     (case storage_object of None \<Rightarrow> (Inr (), w) | Some h \<Rightarrow> stream_close h w)"

definition CachePartitionFile_close ::
  "(string \<times> string) option \<Rightarrow> bool \<Rightarrow> cache_partition_file \<Rightarrow> world \<Rightarrow> unit result" where
  "CachePartitionFile_close storage_object acquire self w =
     locked_class_method (close_body storage_object) acquire self w"

definition update_size_body :: "cache_partition_file \<Rightarrow> world \<Rightarrow> unit result" where
  "update_size_body self w =
     (case file_location w self of
        Inl e \<Rightarrow> (Inl e, w)
      | Inr (st, key) \<Rightarrow>
          (case storage_size st key w of
             (Inl e, w1) \<Rightarrow> (Inl e, w1)
           | (Inr n, w1) \<Rightarrow> File_Model_save (self\<lparr>file_size := n\<rparr>) w1))"

definition CachePartitionFile_update_size :: "bool \<Rightarrow> cache_partition_file \<Rightarrow> world \<Rightarrow> unit result" where
  "CachePartitionFile_update_size acquire self w = locked_class_method update_size_body acquire self w"

subsection \<open>Cache: prune, purge, save\<close>

text \<open>
  The \<^verbatim>\<open>while\<close> loop of \<^verbatim>\<open>prune\<close>, with the counter \<^verbatim>\<open>attempts\<close> as an argument. Not
  returning is the value \<open>None\<close>.
\<close>

partial_function (option) prune_loop :: "cache \<Rightarrow> int \<Rightarrow> world \<Rightarrow> unit result option" where
  "prune_loop self attempts w =
     (if get_total_size w self > maximum_size self then
        (case earliest (get_files w self) of
           Inl e \<Rightarrow> Some (Inl e, w)
         | Inr cache_partition_file \<Rightarrow>
             (case CachePartitionFile_delete True cache_partition_file w of
                (Inr u, w1) \<Rightarrow> prune_loop self attempts w1
              | (Inl e, w1) \<Rightarrow>
                  if e = LockError then
                    (if attempts + 1 > maximum_prune_attempts w1
                     then Some (Inl RuntimeError, w1)
                     else prune_loop self (attempts + 1) w1)
                  else Some (Inl e, w1)))
      else Some (Inr (), w))"

declare prune_loop.simps [code]

definition Cache_prune :: "cache \<Rightarrow> world \<Rightarrow> unit result option" where
  "Cache_prune self w = prune_loop self 0 w"







text \<open>
  \<^verbatim>\<open>Model.save\<close> on the table of caches: the name is unique; a row without a primary key
  is inserted under a fresh one, a row with one replaces the row of that key, or is
  inserted when there is none. The instance comes back with its primary key.
\<close>

definition Cache_Model_save :: "cache \<Rightarrow> world \<Rightarrow> cache result" where
  "Cache_Model_save self w =
     (if list_ex (\<lambda>c. cache_pk c \<noteq> cache_pk self
                      \<and> defined_storage_name c = defined_storage_name self) (caches w)
      then (Inl IntegrityError, w)
      else
        (case cache_pk self of
           None \<Rightarrow>
             (let saved = self\<lparr>cache_pk :=
                    Some (Suc (fold max (map (\<lambda>c. case cache_pk c of None \<Rightarrow> 0 | Some k \<Rightarrow> k)
                                            (caches w)) 0))\<rparr>
              in (Inr saved, w\<lparr>caches := caches w @ [saved]\<rparr>))
         | Some k \<Rightarrow>
             if list_ex (\<lambda>c. cache_pk c = Some k) (caches w)
             then (Inr self, w\<lparr>caches := map (\<lambda>c. if cache_pk c = Some k then self else c) (caches w)\<rparr>)
             else (Inr self, w\<lparr>caches := caches w @ [self]\<rparr>)))"

definition Cache_save :: "cache \<Rightarrow> world \<Rightarrow> cache result option" where
  "Cache_save self w =
     (case Cache_Model_save self w of
        (Inl e, w1) \<Rightarrow> Some (Inl e, w1)
      | (Inr saved, w1) \<Rightarrow>
          (case Cache_prune saved w1 of
             None \<Rightarrow> None
           | Some (Inl e, w2) \<Rightarrow> Some (Inl e, w2)
           | Some (Inr u, w2) \<Rightarrow> Some (Inr saved, w2)))"

subsection \<open>Partition: create\_file\<close>

text \<open>
  \<^verbatim>\<open>self.files.create(filename=filename)\<close>: the pair of partition and filename is unique;
  the row gets a fresh primary key, the time of the clock and size 0.
\<close>

definition files_create :: "cache_partition \<Rightarrow> string \<Rightarrow> world \<Rightarrow> cache_partition_file result" where
  "files_create self fname w =
     (if list_ex (\<lambda>g. file_partition g = partition_pk self \<and> filename g = fname) (files w)
      then (Inl IntegrityError, w)
      else
        (let partition_file =
               \<lparr>file_pk = Suc (fold max (map file_pk (files w)) 0),
                file_partition = partition_pk self,
                datetime = clock w, filename = fname, file_size = 0\<rparr>
         in (Inr partition_file,
             w\<lparr>files := files w @ [partition_file], clock := Suc (clock w)\<rparr>)))"

text \<open>The \<^verbatim>\<open>except Exception\<close> clause: clean up, then raise the exception again.\<close>

definition create_file_except ::
  "string \<Rightarrow> string \<Rightarrow> cache_partition_file option \<Rightarrow> error \<Rightarrow> world \<Rightarrow> unit result" where
  "create_file_except st key partition_file exception w =
     (case partition_file of
        Some pf \<Rightarrow>
          (case CachePartitionFile_delete False pf w of
             (Inl e, w1) \<Rightarrow> (Inl e, w1)
           | (Inr u, w1) \<Rightarrow> (Inl exception, w1))
      | None \<Rightarrow>
          (case storage_delete st key w of
             (Inl e, w1) \<Rightarrow> (Inl e, w1)
           | (Inr u, w1) \<Rightarrow> (Inl exception, w1)))"

text \<open>The inner \<^verbatim>\<open>try\<close> with its \<^verbatim>\<open>except\<close> and \<^verbatim>\<open>else\<close> clauses.\<close>

definition create_file_try ::
  "cache_partition \<Rightarrow> string \<Rightarrow> string \<Rightarrow> caller \<Rightarrow> world \<Rightarrow> unit result" where
  "create_file_try self st fname act w =
     (let key = get_full_filename self fname in
      case files_create self fname w of
        (Inl e, w1) \<Rightarrow> create_file_except st key None e w1
      | (Inr partition_file, w1) \<Rightarrow>
          (case CachePartitionFile_open WB False partition_file w1 of
             (Inl e, w2) \<Rightarrow> create_file_except st key (Some partition_file) e w2
           | (Inr h, w2) \<Rightarrow>
               (case caller_body act h w2 of
                  (Inl e, w3) \<Rightarrow> create_file_except st key (Some partition_file) e w3
                | (Inr u, w3) \<Rightarrow>
                    (case CachePartitionFile_close (Some h) False partition_file w3 of
                       (Inl e, w4) \<Rightarrow> (Inl e, w4)
                     | (Inr u', w4) \<Rightarrow>
                         CachePartitionFile_update_size False partition_file w4))))"

text \<open>What runs while the lock is held: the outer \<^verbatim>\<open>try\<close> up to its \<^verbatim>\<open>finally\<close>.\<close>

definition create_file_locked ::
  "cache_partition \<Rightarrow> string \<Rightarrow> caller \<Rightarrow> world \<Rightarrow> unit result option" where
  "create_file_locked self fname act w =
     (case get_cache w (partition_cache self) of
        Inl e \<Rightarrow> Some (Inl e, w)
      | Inr c \<Rightarrow>
          (case Cache_prune c w of
             None \<Rightarrow> None
           | Some (Inl e, w1) \<Rightarrow> Some (Inl e, w1)
           | Some (Inr u, w1) \<Rightarrow>
               (case storage w1 c of
                  Inl e \<Rightarrow> Some (Inl e, w1)
                | Inr st \<Rightarrow>
                    (case storage_delete st (get_full_filename self fname) w1 of
                       (Inl e, w2) \<Rightarrow> Some (Inl e, w2)
                     | (Inr u', w2) \<Rightarrow>
                         (case storage_save st (get_full_filename self fname) [] w2 of
                            (Inl e, w3) \<Rightarrow> Some (Inl e, w3)
                          | (Inr u'', w3) \<Rightarrow>
                              Some (create_file_try self st fname act w3))))))"

definition CachePartition_create_file ::
  "cache_partition \<Rightarrow> string \<Rightarrow> caller \<Rightarrow> world \<Rightarrow> unit result option" where
  "CachePartition_create_file self fname act w =
     (case get_file_lock_name w self fname of
        Inl e \<Rightarrow> Some (Inl e, w)
      | Inr lock_name \<Rightarrow>
          (case acquire_lock lock_name w of
             (Inl e, w1) \<Rightarrow> Some (Inl e, w1)
           | (Inr lock, w1) \<Rightarrow>
               (case create_file_locked self fname act w1 of
                  None \<Rightarrow> None
                | Some (r, w2) \<Rightarrow> Some (r, release lock w2))))"

subsection \<open>Example worlds\<close>

text \<open>
  A cache of at most three bytes on a registered storage, with two partitions; a second
  cache whose storage name is not registered.
\<close>

definition disk :: defined_storage where
  "disk = \<lparr>dotted_path = ''django.core.files.storage.FileSystemStorage'',
           label = ''Disk'', name = ''disk''\<rparr>"

definition thumbnails :: cache where
  "thumbnails = \<lparr>cache_pk = Some 1, defined_storage_name = ''disk'', maximum_size = 3\<rparr>"

definition orphan :: cache where
  "orphan = \<lparr>cache_pk = Some 2, defined_storage_name = ''gone'', maximum_size = 3\<rparr>"

definition pages :: cache_partition where
  "pages = \<lparr>partition_pk = 1, partition_cache = 1, partition_name = ''pages''\<rparr>"

definition previews :: cache_partition where
  "previews = \<lparr>partition_pk = 2, partition_cache = 1, partition_name = ''previews''\<rparr>"

definition lost :: cache_partition where
  "lost = \<lparr>partition_pk = 3, partition_cache = 2, partition_name = ''lost''\<rparr>"

definition empty_world :: world where
  "empty_world =
     \<lparr>caches = [thumbnails, orphan], partitions = [pages, previews, lost], files = [],
      registry = [''disk'' \<mapsto> disk], objects = Map.empty, faults = [], locks = [],
      clock = 0, maximum_prune_attempts = 2\<rparr>"

text \<open>
  The same tables with three files: the oldest file of the first cache is in its second
  partition, and a still older file belongs to the other cache.
\<close>

definition oldest :: cache_partition_file where
  "oldest = \<lparr>file_pk = 1, file_partition = 2, datetime = 1, filename = ''a'', file_size = 2\<rparr>"

definition newer :: cache_partition_file where
  "newer = \<lparr>file_pk = 2, file_partition = 1, datetime = 2, filename = ''b'', file_size = 2\<rparr>"

definition foreign :: cache_partition_file where
  "foreign = \<lparr>file_pk = 3, file_partition = 3, datetime = 0, filename = ''c'', file_size = 2\<rparr>"

definition full_world :: world where
  "full_world =
     empty_world\<lparr>files := [newer, oldest, foreign],
                  objects := [(''disk'', ''previews-a'') \<mapsto> ''xx'',
                              (''disk'', ''pages-b'') \<mapsto> ''yy''],
                  clock := 3\<rparr>"


text \<open>What a caller can observe of a world: the total size of a cache, the bytes at a key.\<close>

definition total_size_in :: "cache \<Rightarrow> world \<Rightarrow> int" where
  "total_size_in self w = get_total_size w self"

definition read_object :: "string \<times> string \<Rightarrow> world \<Rightarrow> string option" where
  "read_object k w = objects w k"

section \<open>Properties\<close>

subsection \<open>What the primitive operations leave alone\<close>

lemma io_fault_frame:
  "io_fault w = (b, w1) \<Longrightarrow>
     caches w1 = caches w \<and> partitions w1 = partitions w \<and> files w1 = files w \<and>
     registry w1 = registry w \<and> objects w1 = objects w \<and> locks w1 = locks w \<and>
     clock w1 = clock w \<and> maximum_prune_attempts w1 = maximum_prune_attempts w"
  by (auto simp: io_fault_def split: list.splits)

lemma storage_delete_frame:
  "storage_delete st key w = (r, w1) \<Longrightarrow>
     caches w1 = caches w \<and> partitions w1 = partitions w \<and> files w1 = files w \<and>
     registry w1 = registry w \<and> locks w1 = locks w \<and>
     clock w1 = clock w \<and> maximum_prune_attempts w1 = maximum_prune_attempts w"
  by (auto simp: storage_delete_def split: prod.splits if_splits dest: io_fault_frame)

lemma storage_delete_objects:
  "storage_delete st key w = (r, w1) \<Longrightarrow>
     (case r of Inl e \<Rightarrow> e = StorageError Delete \<and> objects w1 = objects w
              | Inr u \<Rightarrow> objects w1 = (objects w)((st, key) := None))"
  by (auto simp: storage_delete_def split: prod.splits if_splits dest: io_fault_frame)

lemma get_partition_cong: "partitions w1 = partitions w \<Longrightarrow> get_partition w1 = get_partition w"
  by (rule ext) (simp add: get_partition_def)

lemma get_cache_cong: "caches w1 = caches w \<Longrightarrow> get_cache w1 = get_cache w"
  by (rule ext) (simp add: get_cache_def)

lemma storage_cong: "registry w1 = registry w \<Longrightarrow> storage w1 = storage w"
  by (rule ext) (simp add: storage_def get_defined_storage_def DefinedStorage_get_def)

lemma file_location_cong:
  assumes "partitions w1 = partitions w" and "caches w1 = caches w" and "registry w1 = registry w"
  shows "file_location w1 = file_location w"
proof (rule ext)
  fix x
  have a: "get_partition w1 = get_partition w" using assms(1) by (rule get_partition_cong)
  have b: "get_cache w1 = get_cache w" using assms(2) by (rule get_cache_cong)
  have c: "storage w1 = storage w" using assms(3) by (rule storage_cong)
  show "file_location w1 x = file_location w x"
    unfolding file_location_def a b c ..
qed

lemma get_files_cong:
  "partitions w1 = partitions w \<Longrightarrow> files w1 = files w \<Longrightarrow> get_files w1 = get_files w"
  by (rule ext) (simp add: get_files_def)

lemma get_total_size_cong:
  "partitions w1 = partitions w \<Longrightarrow> files w1 = files w \<Longrightarrow> get_total_size w1 = get_total_size w"
  by (rule ext) (simp add: get_total_size_def get_files_def)

lemma earliest_fold_in: "fold (\<lambda>g m. if datetime g < datetime m then g else m) r f \<in> set (f # r)"
  by (induction r arbitrary: f) (auto split: if_splits)

lemma earliest_fold_le:
  "datetime (fold (\<lambda>g m. if datetime g < datetime m then g else m) r f) \<le> datetime f"
proof (induction r arbitrary: f)
  case Nil then show ?case by simp
next
  case (Cons a r)
  have "datetime (fold (\<lambda>g m. if datetime g < datetime m then g else m) r (if datetime a < datetime f then a else f))
        \<le> datetime (if datetime a < datetime f then a else f)" by (rule Cons.IH)
  also have "\<dots> \<le> datetime f" by simp
  finally show ?case by simp
qed

lemma earliest_fold_min:
  "g \<in> set r \<Longrightarrow> datetime (fold (\<lambda>g m. if datetime g < datetime m then g else m) r f) \<le> datetime g"
proof (induction r arbitrary: f)
  case Nil then show ?case by simp
next
  case (Cons a r)
  show ?case
  proof (cases "g = a")
    case True
    have "datetime (fold (\<lambda>g m. if datetime g < datetime m then g else m) r (if datetime a < datetime f then a else f))
        \<le> datetime (if datetime a < datetime f then a else f)" by (rule earliest_fold_le)
    also have "\<dots> \<le> datetime a" by simp
    finally show ?thesis using True by simp
  next
    case False
    with Cons.prems have "g \<in> set r" by simp
    from Cons.IH[OF this] show ?thesis by simp
  qed
qed

lemma earliest_in: assumes "earliest fs = Inr f" shows "f \<in> set fs"
proof (cases fs)
  case Nil with assms show ?thesis by (simp add: earliest_def)
next
  case (Cons a r)
  with assms have "f = fold (\<lambda>g m. if datetime g < datetime m then g else m) r a"
    by (simp add: earliest_def)
  then show ?thesis using earliest_fold_in[of r a] Cons by simp
qed

lemma earliest_min: assumes "earliest fs = Inr f" and g: "g \<in> set fs" shows "datetime f \<le> datetime g"
proof (cases fs)
  case Nil with assms show ?thesis by (simp add: earliest_def)
next
  case (Cons a r)
  with assms have f: "f = fold (\<lambda>g m. if datetime g < datetime m then g else m) r a"
    by (simp add: earliest_def)
  from g Cons have "g = a \<or> g \<in> set r" by simp
  then show ?thesis
  proof
    assume "g = a" then show ?thesis using earliest_fold_le[of r a] f by simp
  next
    assume "g \<in> set r" then show ?thesis using earliest_fold_min[of g r a] f by simp
  qed
qed

lemma earliest_error: "earliest fs = Inl e \<Longrightarrow> e = DoesNotExist \<and> fs = []"
  by (auto simp: earliest_def split: list.splits)

lemma set_get_files:
  "set (get_files w self) =
     {g \<in> set (files w). \<exists>p \<in> set (partitions w).
         partition_pk p = file_partition g \<and> Some (partition_cache p) = cache_pk self}"
  by (auto simp: get_files_def list_ex_iff)

subsection \<open>The defined storage of a cache\<close>

text \<open>
  C10. \<^verbatim>\<open>Cache.get_defined_storage\<close> never raises: it always returns a defined storage, and
  when the stored name is not in the registry that storage is the placeholder labelled
  \<^verbatim>\<open>Unknown\<close>; so the label of the cache is always defined.
\<close>

theorem get_defined_storage_never_raises:
  "\<exists>d. get_defined_storage w self = Inr d
       \<and> cache_label w self = Inr (label d)
       \<and> (registry w (defined_storage_name self) = None \<longrightarrow> label d = ''Unknown'')"
  by (auto simp: get_defined_storage_def DefinedStorage_get_def cache_label_def
           split: option.splits)

theorem get_defined_storage_never_raises_witness:
  "registry empty_world (defined_storage_name orphan) = None
   \<and> cache_label empty_world orphan = Inr ''Unknown''"
proof -
  have none: "registry empty_world (defined_storage_name orphan) = None"
    by (simp add: empty_world_def orphan_def)
  from get_defined_storage_never_raises [of empty_world orphan] none
  show ?thesis by auto
qed

subsection \<open>The file that prune selects\<close>

text \<open>
  C3. In an iteration of \<^verbatim>\<open>Cache.prune\<close> that attempts a deletion, the file handed to
  \<^verbatim>\<open>delete\<close> is a file of some partition of this cache, and no file of any partition of
  this cache has an earlier \<^verbatim>\<open>datetime\<close>: the selection is cache-wide.
\<close>

theorem prune_selects_earliest_of_cache:
  assumes "maximum_size self < get_total_size w self"
    and "earliest (get_files w self) = Inr f"
  shows "prune_loop self attempts w =
           (case CachePartitionFile_delete True f w of
              (Inr u, w1) \<Rightarrow> prune_loop self attempts w1
            | (Inl e, w1) \<Rightarrow>
                if e = LockError then
                  (if attempts + 1 > maximum_prune_attempts w1
                   then Some (Inl RuntimeError, w1)
                   else prune_loop self (attempts + 1) w1)
                else Some (Inl e, w1))
         \<and> f \<in> set (files w)
         \<and> (\<exists>p \<in> set (partitions w).
               partition_pk p = file_partition f \<and> Some (partition_cache p) = cache_pk self)
         \<and> (\<forall>g \<in> set (files w).
               (\<exists>p \<in> set (partitions w).
                  partition_pk p = file_partition g \<and> Some (partition_cache p) = cache_pk self)
               \<longrightarrow> datetime f \<le> datetime g)"
proof -
  have loop: "prune_loop self attempts w =
           (case CachePartitionFile_delete True f w of
              (Inr u, w1) \<Rightarrow> prune_loop self attempts w1
            | (Inl e, w1) \<Rightarrow>
                if e = LockError then
                  (if attempts + 1 > maximum_prune_attempts w1
                   then Some (Inl RuntimeError, w1)
                   else prune_loop self (attempts + 1) w1)
                else Some (Inl e, w1))"
    by (subst prune_loop.simps) (simp add: assms)
  have mem: "f \<in> set (get_files w self)" using assms(2) by (rule earliest_in)
  have least: "\<And>g. g \<in> set (get_files w self) \<Longrightarrow> datetime f \<le> datetime g"
    using assms(2) by (rule earliest_min)
  from loop mem least show ?thesis unfolding set_get_files by blast
qed

theorem prune_selects_earliest_of_cache_witness:
  "maximum_size thumbnails < get_total_size full_world thumbnails
   \<and> earliest (get_files full_world thumbnails) = Inr oldest
   \<and> file_partition oldest = partition_pk previews
   \<and> oldest \<in> set (files full_world)
   \<and> datetime oldest \<le> datetime newer"
proof -
  have over: "maximum_size thumbnails < get_total_size full_world thumbnails"
    by code_simp
  have sel: "earliest (get_files full_world thumbnails) = Inr oldest"
    by code_simp
  have part: "file_partition oldest = partition_pk previews"
    by (simp add: oldest_def previews_def)
  have newer: "newer \<in> set (files full_world)"
    by (simp add: full_world_def)
  have owned: "\<exists>p \<in> set (partitions full_world).
      partition_pk p = file_partition newer \<and> Some (partition_cache p) = cache_pk thumbnails"
    by (simp add: full_world_def empty_world_def newer_def pages_def thumbnails_def)
  from prune_selects_earliest_of_cache [OF over sel, of 0] newer owned
  have "oldest \<in> set (files full_world) \<and> datetime oldest \<le> datetime newer"
    by blast
  with over sel part show ?thesis by simp
qed

subsection \<open>Deleting a file\<close>

lemma acquire_lock_frame:
  "acquire_lock nm w = (r, w1) \<Longrightarrow>
     caches w1 = caches w \<and> partitions w1 = partitions w \<and> files w1 = files w \<and>
     registry w1 = registry w \<and> objects w1 = objects w \<and> faults w1 = faults w \<and>
     clock w1 = clock w \<and> maximum_prune_attempts w1 = maximum_prune_attempts w"
  by (auto simp: acquire_lock_def split: if_splits)

lemma acquire_lock_Inl: "acquire_lock nm w = (Inl e, w1) \<Longrightarrow> e = LockError \<and> w1 = w \<and> nm \<in> set (locks w)"
  by (auto simp: acquire_lock_def split: if_splits)

lemma acquire_lock_Inr:
  "acquire_lock nm w = (Inr lock, w1) \<Longrightarrow>
     lock = nm \<and> nm \<notin> set (locks w) \<and> w1 = w\<lparr>locks := nm # locks w\<rparr>"
  by (auto simp: acquire_lock_def split: if_splits)

lemma release_fields [simp]:
  "caches (release nm w) = caches w"
  "partitions (release nm w) = partitions w"
  "files (release nm w) = files w"
  "registry (release nm w) = registry w"
  "objects (release nm w) = objects w"
  "faults (release nm w) = faults w"
  "clock (release nm w) = clock w"
  "maximum_prune_attempts (release nm w) = maximum_prune_attempts w"
  "locks (release nm w) = removeAll nm (locks w)"
  by (simp_all add: release_def)

lemma file_location_lock_irrelevant [simp]:
  "file_location (w\<lparr>locks := l\<rparr>) = file_location w"
  by (rule file_location_cong) simp_all

lemma file_location_Inl: "file_location w self = Inl e \<Longrightarrow> e = DoesNotExist \<or> e = ImportError"
  by (auto simp: file_location_def get_partition_def get_cache_def storage_def
        get_defined_storage_def DefinedStorage_get_def get_storage_instance_def
      split: sum.splits option.splits if_splits)

lemma delete_body_Inl:
  assumes "delete_body self w = (Inl e, w1)"
  shows "e \<noteq> LockError \<and> caches w1 = caches w \<and> partitions w1 = partitions w \<and>
         files w1 = files w \<and> registry w1 = registry w \<and> objects w1 = objects w \<and>
         locks w1 = locks w \<and> clock w1 = clock w \<and>
         maximum_prune_attempts w1 = maximum_prune_attempts w"
proof (cases "file_location w self")
  case (Inl e')
  with assms have "e = e'" and "w1 = w" by (simp_all add: delete_body_def)
  with file_location_Inl[OF Inl] show ?thesis by auto
next
  case (Inr loc)
  obtain st key where loc: "loc = (st, key)" by (cases loc)
  with assms Inr have del: "storage_delete st key w = (Inl e, w1)"
    by (auto simp: delete_body_def split: prod.splits sum.splits)
  from storage_delete_frame[OF del] storage_delete_objects[OF del]
  show ?thesis by simp
qed

lemma delete_body_Inr:
  assumes "delete_body self w = (Inr u, w1)"
  shows "\<exists>st key. file_location w self = Inr (st, key) \<and>
           objects w1 = (objects w)((st, key) := None)"
    and "files w1 = filter (\<lambda>g. file_pk g \<noteq> file_pk self) (files w)"
    and "caches w1 = caches w \<and> partitions w1 = partitions w \<and> registry w1 = registry w \<and>
         locks w1 = locks w \<and> clock w1 = clock w \<and>
         maximum_prune_attempts w1 = maximum_prune_attempts w"
proof -
  from assms obtain st key where loc: "file_location w self = Inr (st, key)"
    by (cases "file_location w self") (auto simp: delete_body_def)
  with assms obtain w2 where del: "storage_delete st key w = (Inr (), w2)"
    and w1: "w1 = File_Model_delete self w2"
    by (auto simp: delete_body_def split: prod.splits sum.splits)
  note fr = storage_delete_frame[OF del] and ob = storage_delete_objects[OF del]
  from loc ob w1 show "\<exists>st key. file_location w self = Inr (st, key) \<and>
           objects w1 = (objects w)((st, key) := None)"
    by (simp add: File_Model_delete_def)
  from fr w1 show "files w1 = filter (\<lambda>g. file_pk g \<noteq> file_pk self) (files w)"
    by (simp add: File_Model_delete_def)
  from fr w1 show "caches w1 = caches w \<and> partitions w1 = partitions w \<and> registry w1 = registry w \<and>
         locks w1 = locks w \<and> clock w1 = clock w \<and>
         maximum_prune_attempts w1 = maximum_prune_attempts w"
    by (simp add: File_Model_delete_def)
qed

lemma locked_delete_cases:
  assumes "CachePartitionFile_delete True self w = (r, w1)"
  shows "(\<exists>e. r = Inl e \<and> w1 = w \<and> (\<forall>op. e \<noteq> StorageError op))
       \<or> (\<exists>nm w2. lock_manager_get_lock_name w self = Inr nm \<and> nm \<notin> set (locks w)
             \<and> delete_body self (w\<lparr>locks := nm # locks w\<rparr>) = (r, w2) \<and> w1 = release nm w2)"
proof (cases "lock_manager_get_lock_name w self")
  case (Inl e)
  then have "\<forall>op. e \<noteq> StorageError op"
    by (auto simp: lock_manager_get_lock_name_def get_file_lock_name_def get_partition_def
          get_cache_def split: sum.splits option.splits)
  with assms Inl show ?thesis
    by (auto simp: CachePartitionFile_delete_def locked_class_method_def)
next
  case (Inr nm)
  show ?thesis
  proof (cases "nm \<in> set (locks w)")
    case True
    with assms Inr show ?thesis
      by (auto simp: CachePartitionFile_delete_def locked_class_method_def acquire_lock_def)
  next
    case False
    with assms Inr show ?thesis
      by (auto simp: CachePartitionFile_delete_def locked_class_method_def acquire_lock_def
            split: prod.splits)
  qed
qed

lemma CachePartitionFile_delete_frame:
  assumes "CachePartitionFile_delete acquire self w = (r, w1)"
  shows "caches w1 = caches w \<and> partitions w1 = partitions w \<and> registry w1 = registry w \<and>
         locks w1 = locks w \<and> clock w1 = clock w \<and>
         maximum_prune_attempts w1 = maximum_prune_attempts w"
proof (cases acquire)
  case False
  with assms have b: "delete_body self w = (r, w1)"
    by (simp add: CachePartitionFile_delete_def locked_class_method_def)
  show ?thesis
  proof (cases r)
    case (Inl e) with b delete_body_Inl[of self w e w1] show ?thesis by simp
  next
    case (Inr u) with b delete_body_Inr(3)[of self w u w1] show ?thesis by simp
  qed
next
  case True
  with assms have a: "CachePartitionFile_delete True self w = (r, w1)" by simp
  from locked_delete_cases[OF a] show ?thesis
  proof
    assume "\<exists>e. r = Inl e \<and> w1 = w \<and> (\<forall>op. e \<noteq> StorageError op)" then show ?thesis by auto
  next
    assume "\<exists>nm w2. lock_manager_get_lock_name w self = Inr nm \<and> nm \<notin> set (locks w)
             \<and> delete_body self (w\<lparr>locks := nm # locks w\<rparr>) = (r, w2) \<and> w1 = release nm w2"
    then obtain nm w2 where nm: "nm \<notin> set (locks w)"
      and b: "delete_body self (w\<lparr>locks := nm # locks w\<rparr>) = (r, w2)"
      and w1: "w1 = release nm w2" by blast
    show ?thesis
    proof (cases r)
      case (Inl e) with b delete_body_Inl[of self "w\<lparr>locks := nm # locks w\<rparr>" e w2] nm w1
      show ?thesis by simp
    next
      case (Inr u) with b delete_body_Inr(3)[of self "w\<lparr>locks := nm # locks w\<rparr>" u w2] nm w1
      show ?thesis by simp
    qed
  qed
qed

lemma CachePartitionFile_delete_Inl:
  assumes "CachePartitionFile_delete acquire self w = (Inl e, w1)"
  shows "files w1 = files w \<and> objects w1 = objects w"
proof (cases acquire)
  case False
  with assms have b: "delete_body self w = (Inl e, w1)"
    by (simp add: CachePartitionFile_delete_def locked_class_method_def)
  from delete_body_Inl[OF b] show ?thesis by simp
next
  case True
  with assms have a: "CachePartitionFile_delete True self w = (Inl e, w1)" by simp
  from locked_delete_cases[OF a] show ?thesis
  proof
    assume "\<exists>e'. Inl e = Inl e' \<and> w1 = w \<and> (\<forall>op. e' \<noteq> StorageError op)" then show ?thesis by auto
  next
    assume "\<exists>nm w2. lock_manager_get_lock_name w self = Inr nm \<and> nm \<notin> set (locks w)
             \<and> delete_body self (w\<lparr>locks := nm # locks w\<rparr>) = (Inl e, w2) \<and> w1 = release nm w2"
    then obtain nm w2 where b: "delete_body self (w\<lparr>locks := nm # locks w\<rparr>) = (Inl e, w2)"
      and w1: "w1 = release nm w2" by blast
    from delete_body_Inl[OF b] w1 show ?thesis by simp
  qed
qed

lemma CachePartitionFile_delete_Inr:
  assumes "CachePartitionFile_delete acquire self w = (Inr u, w1)"
  shows "files w1 = filter (\<lambda>g. file_pk g \<noteq> file_pk self) (files w)"
    and "\<exists>st key. file_location w self = Inr (st, key) \<and>
           objects w1 = (objects w)((st, key) := None)"
proof -
  have "\<exists>w0 w2. delete_body self w0 = (Inr u, w2) \<and> files w0 = files w \<and> objects w0 = objects w
          \<and> file_location w0 = file_location w \<and> files w1 = files w2 \<and> objects w1 = objects w2"
  proof (cases acquire)
    case False
    with assms have "delete_body self w = (Inr u, w1)"
      by (simp add: CachePartitionFile_delete_def locked_class_method_def)
    then show ?thesis by blast
  next
    case True
    with assms have a: "CachePartitionFile_delete True self w = (Inr u, w1)" by simp
    from locked_delete_cases[OF a] obtain nm w2
      where b: "delete_body self (w\<lparr>locks := nm # locks w\<rparr>) = (Inr u, w2)"
      and w1: "w1 = release nm w2" by blast
    have "files (w\<lparr>locks := nm # locks w\<rparr>) = files w" "objects (w\<lparr>locks := nm # locks w\<rparr>) = objects w"
      "file_location (w\<lparr>locks := nm # locks w\<rparr>) = file_location w" by simp_all
    with b w1 show ?thesis by (metis release_fields(3) release_fields(5))
  qed
  then obtain w0 w2 where b: "delete_body self w0 = (Inr u, w2)" and f0: "files w0 = files w"
    and o0: "objects w0 = objects w" and l0: "file_location w0 = file_location w"
    and f1: "files w1 = files w2" and o1: "objects w1 = objects w2" by blast
  from delete_body_Inr(2)[OF b] f0 f1
  show "files w1 = filter (\<lambda>g. file_pk g \<noteq> file_pk self) (files w)" by simp
  from delete_body_Inr(1)[OF b] o0 o1 l0
  show "\<exists>st key. file_location w self = Inr (st, key) \<and>
           objects w1 = (objects w)((st, key) := None)" by simp
qed

lemma locked_delete_LockError:
  assumes "CachePartitionFile_delete True self w = (Inl LockError, w1)"
  shows "w1 = w"
proof -
  from locked_delete_cases[OF assms] show ?thesis
  proof
    assume "\<exists>e. Inl LockError = Inl e \<and> w1 = w \<and> (\<forall>op. e \<noteq> StorageError op)" then show ?thesis by simp
  next
    assume "\<exists>nm w2. lock_manager_get_lock_name w self = Inr nm \<and> nm \<notin> set (locks w)
             \<and> delete_body self (w\<lparr>locks := nm # locks w\<rparr>) = (Inl LockError, w2) \<and> w1 = release nm w2"
    then obtain nm w2 where "delete_body self (w\<lparr>locks := nm # locks w\<rparr>) = (Inl LockError, w2)"
      by blast
    from delete_body_Inl[OF this] show ?thesis by simp
  qed
qed

subsection \<open>The order of the two deletions\<close>

lemma io_fault_snd_fields [simp]:
  "caches (snd (io_fault w)) = caches w"
  "partitions (snd (io_fault w)) = partitions w"
  "files (snd (io_fault w)) = files w"
  "registry (snd (io_fault w)) = registry w"
  "objects (snd (io_fault w)) = objects w"
  "locks (snd (io_fault w)) = locks w"
  "clock (snd (io_fault w)) = clock w"
  "maximum_prune_attempts (snd (io_fault w)) = maximum_prune_attempts w"
  by (simp_all add: io_fault_def split: list.splits)

lemma io_fault_lock_irrelevant [simp]:
  "fst (io_fault (w\<lparr>locks := l\<rparr>)) = fst (io_fault w)"
  by (simp add: io_fault_def split: list.splits)

lemma delete_body_eval:
  assumes "file_location w self = Inr (st, key)"
  shows "delete_body self w =
           (if fst (io_fault w) then (Inl (StorageError Delete), snd (io_fault w))
            else (Inr (), File_Model_delete self
                    ((snd (io_fault w))\<lparr>objects := (objects w)((st, key) := None)\<rparr>)))"
proof -
  obtain b w2 where io: "io_fault w = (b, w2)" by (cases "io_fault w")
  from io_fault_frame[OF io] have "objects w2 = objects w" by simp
  with assms io show ?thesis by (simp add: delete_body_def storage_delete_def)
qed

text \<open>
  C6. \<^verbatim>\<open>CachePartitionFile.delete\<close> deletes the backend object at the combined key first and
  removes the row of the file after it. When the backend delete raises, the row is not
  removed and the error comes out of \<^verbatim>\<open>delete\<close>; when it succeeds, the object is gone
  and so is the row. This holds with the lock taken by the method as well as with
  \<^verbatim>\<open>_acquire_lock=False\<close>.
\<close>

theorem delete_backend_then_record:
  assumes "file_location w self = Inr (st, key)"
    and "acquire \<longrightarrow> (\<exists>nm. lock_manager_get_lock_name w self = Inr nm \<and> nm \<notin> set (locks w))"
  shows "(fst (io_fault w) \<longrightarrow>
            (\<exists>w1. CachePartitionFile_delete acquire self w = (Inl (StorageError Delete), w1)
                  \<and> files w1 = files w \<and> objects w1 = objects w \<and> locks w1 = locks w))
       \<and> (\<not> fst (io_fault w) \<longrightarrow>
            (\<exists>w1. CachePartitionFile_delete acquire self w = (Inr (), w1)
                  \<and> objects w1 = (objects w)((st, key) := None)
                  \<and> files w1 = filter (\<lambda>g. file_pk g \<noteq> file_pk self) (files w)
                  \<and> locks w1 = locks w))"
proof (cases acquire)
  case False
  then have "CachePartitionFile_delete acquire self w = delete_body self w"
    by (simp add: CachePartitionFile_delete_def locked_class_method_def)
  with delete_body_eval[OF assms(1)] show ?thesis
    by (simp add: File_Model_delete_def)
next
  case True
  with assms(2) obtain nm where nm: "lock_manager_get_lock_name w self = Inr nm"
    and free: "nm \<notin> set (locks w)" by blast
  let ?w = "w\<lparr>locks := nm # locks w\<rparr>"
  have loc: "file_location ?w self = Inr (st, key)" using assms(1) by simp
  have "CachePartitionFile_delete acquire self w =
          (case delete_body self ?w of (r, w2) \<Rightarrow> (r, release nm w2))"
    using True nm free
    by (simp add: CachePartitionFile_delete_def locked_class_method_def acquire_lock_def)
  with delete_body_eval[OF loc] free show ?thesis
    by (simp add: File_Model_delete_def)
qed

theorem delete_backend_then_record_witness:
  "file_location (full_world\<lparr>faults := [True]\<rparr>) oldest = Inr (''disk'', ''previews-a'')
   \<and> fst (io_fault (full_world\<lparr>faults := [True]\<rparr>))
   \<and> fst (CachePartitionFile_delete True oldest (full_world\<lparr>faults := [True]\<rparr>)) = Inl (StorageError Delete)
   \<and> files (snd (CachePartitionFile_delete True oldest (full_world\<lparr>faults := [True]\<rparr>)))
       = [newer, oldest, foreign]"
proof -
  let ?w = "full_world\<lparr>faults := [True]\<rparr>"
  have loc: "file_location ?w oldest = Inr (''disk'', ''previews-a'')"
    by code_simp
  have lock: "True \<longrightarrow> (\<exists>nm. lock_manager_get_lock_name ?w oldest = Inr nm \<and> nm \<notin> set (locks ?w))"
  proof -
    have "lock_manager_get_lock_name ?w oldest = Inr ''cache_partition-file-1-2-a''"
      by code_simp
    moreover have "''cache_partition-file-1-2-a'' \<notin> set (locks ?w)"
      by (simp add: full_world_def empty_world_def)
    ultimately show ?thesis by blast
  qed
  have fault: "fst (io_fault ?w)" by (simp add: io_fault_def)
  have rows: "files ?w = [newer, oldest, foreign]" by (simp add: full_world_def)
  from delete_backend_then_record [OF loc lock] fault rows loc show ?thesis by auto
qed

subsection \<open>The loop of prune\<close>

lemma prune_loop_terminates: "\<exists>y. prune_loop self attempts w = Some y"
proof (induction "length (files w)" arbitrary: w attempts rule: less_induct)
  case outer: less
  show ?case
  proof (induction "nat (maximum_prune_attempts w + 1 - attempts)" arbitrary: attempts
           rule: less_induct)
    case inner: less
    show ?case
    proof (cases "maximum_size self < get_total_size w self")
      case False
      then show ?thesis by (subst prune_loop.simps) simp
    next
      case True
      show ?thesis
      proof (cases "earliest (get_files w self)")
        case (Inl e)
        with True show ?thesis by (subst prune_loop.simps) simp
      next
        case (Inr f)
        obtain r w1 where d: "CachePartitionFile_delete True f w = (r, w1)"
          by (cases "CachePartitionFile_delete True f w")
        show ?thesis
        proof (cases r)
          case r: (Inr u)
          from earliest_in[OF Inr] have "f \<in> set (files w)" by (simp add: set_get_files)
          then have "length (filter (\<lambda>g. file_pk g \<noteq> file_pk f) (files w)) < length (files w)"
            by (rule length_filter_less) simp
          with CachePartitionFile_delete_Inr(1)[OF d[unfolded r]]
          have "length (files w1) < length (files w)" by simp
          from outer.hyps[OF this] obtain y where "prune_loop self attempts w1 = Some y"
            by blast
          with True Inr d r show ?thesis by (subst prune_loop.simps) simp
        next
          case r: (Inl e)
          show ?thesis
          proof (cases "e = LockError")
            case False
            with True Inr d r show ?thesis by (subst prune_loop.simps) simp
          next
            case e: True
            with d r have w1: "w1 = w" by (simp add: locked_delete_LockError)
            show ?thesis
            proof (cases "maximum_prune_attempts w < attempts + 1")
              case True
              with \<open>maximum_size self < get_total_size w self\<close> Inr d r e w1
              show ?thesis by (subst prune_loop.simps) simp
            next
              case False
              then have "nat (maximum_prune_attempts w + 1 - (attempts + 1))
                          < nat (maximum_prune_attempts w + 1 - attempts)" by simp
              from inner.hyps[OF this] obtain y
                where "prune_loop self (attempts + 1) w = Some y" by blast
              with \<open>maximum_size self < get_total_size w self\<close> Inr d r e w1 False
              show ?thesis by (subst prune_loop.simps) simp
            qed
          qed
        qed
      qed
    qed
  qed
qed

lemma prune_loop_post:
  assumes "prune_loop self attempts w = Some y"
  shows "caches (snd y) = caches w \<and> partitions (snd y) = partitions w \<and>
     registry (snd y) = registry w \<and> locks (snd y) = locks w \<and>
     clock (snd y) = clock w \<and> maximum_prune_attempts (snd y) = maximum_prune_attempts w \<and>
     set (files (snd y)) \<subseteq> set (files w) \<and>
     (fst y = Inr () \<longrightarrow> get_total_size (snd y) self \<le> maximum_size self) \<and>
     fst y \<noteq> Inl LockError"
  using assms
proof (induction self attempts w y rule: prune_loop.raw_induct[rotated, consumes 1])
  case (1 loop self attempts w y)
  show ?case
  proof (cases "maximum_size self < get_total_size w self")
    case False
    with 1(2) show ?thesis by auto
  next
    case True
    show ?thesis
    proof (cases "earliest (get_files w self)")
      case (Inl e)
      with True 1(2) earliest_error[OF Inl] show ?thesis by auto
    next
      case (Inr f)
      obtain r w1 where d: "CachePartitionFile_delete True f w = (r, w1)"
        by (cases "CachePartitionFile_delete True f w")
      note fr = CachePartitionFile_delete_frame[OF d]
      show ?thesis
      proof (cases r)
        case r: (Inr u)
        with True Inr d 1(2) have "loop self attempts w1 = Some y" by simp
        from 1(1)[OF this] fr CachePartitionFile_delete_Inr(1)[OF d[unfolded r]]
        show ?thesis by auto
      next
        case r: (Inl e)
        note same = CachePartitionFile_delete_Inl[OF d[unfolded r]]
        show ?thesis
        proof (cases "e = LockError")
          case False
          with True Inr d r 1(2) have "y = (Inl e, w1)" by simp
          with fr same False show ?thesis by simp
        next
          case e: True
          show ?thesis
          proof (cases "maximum_prune_attempts w1 < attempts + 1")
            case True
            with \<open>maximum_size self < get_total_size w self\<close> Inr d r e 1(2)
            have "y = (Inl RuntimeError, w1)" by simp
            with fr same show ?thesis by simp
          next
            case False
            with \<open>maximum_size self < get_total_size w self\<close> Inr d r e 1(2)
            have "loop self (attempts + 1) w1 = Some y" by simp
            from 1(1)[OF this] fr same show ?thesis by auto
          qed
        qed
      qed
    qed
  qed
qed








subsection \<open>Saving a cache\<close>

lemma Cache_Model_save_Inr:
  assumes "Cache_Model_save self w = (Inr saved, w1)"
  shows "saved \<in> set (caches w1) \<and> maximum_size saved = maximum_size self \<and>
         defined_storage_name saved = defined_storage_name self \<and>
         partitions w1 = partitions w \<and> files w1 = files w \<and> registry w1 = registry w \<and>
         objects w1 = objects w \<and> locks w1 = locks w"
proof (cases "cache_pk self")
  case None
  with assms show ?thesis
    by (auto simp: Cache_Model_save_def Let_def split: if_splits)
next
  case (Some k)
  show ?thesis
  proof (cases "list_ex (\<lambda>c. cache_pk c = Some k) (caches w)")
    case True
    then obtain c where "c \<in> set (caches w)" and "cache_pk c = Some k"
      by (auto simp: list_ex_iff)
    then have "self \<in> (\<lambda>c. if cache_pk c = Some k then self else c) ` set (caches w)"
      by force
    with assms Some True show ?thesis
      by (auto simp: Cache_Model_save_def split: if_splits)
  next
    case False
    with assms Some show ?thesis
      by (auto simp: Cache_Model_save_def split: if_splits)
  qed
qed

text \<open>
  C7. \<^verbatim>\<open>Cache.save\<close> returns, and when it returns normally the row was persisted and
  prune ran on the saved instance right after it and completed: the total size is within
  the \<^verbatim>\<open>maximum_size\<close> that was saved, so a lowered bound is in force when save returns.
  When prune raises, so does save.
\<close>

theorem save_prunes_after_persisting:
  "(\<exists>y. Cache_save self w = Some y)
   \<and> (\<forall>saved w'. Cache_save self w = Some (Inr saved, w') \<longrightarrow>
        (\<exists>w1. Cache_Model_save self w = (Inr saved, w1)
              \<and> Cache_prune saved w1 = Some (Inr (), w'))
        \<and> maximum_size saved = maximum_size self
        \<and> saved \<in> set (caches w')
        \<and> get_total_size w' saved \<le> maximum_size self)
   \<and> (\<forall>saved w1 e w2. Cache_Model_save self w = (Inr saved, w1) \<longrightarrow>
        Cache_prune saved w1 = Some (Inl e, w2) \<longrightarrow> Cache_save self w = Some (Inl e, w2))"
proof (intro conjI allI impI)
  obtain r w1 where m: "Cache_Model_save self w = (r, w1)"
    by (cases "Cache_Model_save self w")
  show "\<exists>y. Cache_save self w = Some y"
  proof (cases r)
    case (Inl e)
    with m show ?thesis by (simp add: Cache_save_def)
  next
    case (Inr saved)
    from prune_loop_terminates[of saved 0 w1] obtain r2 w2
      where "Cache_prune saved w1 = Some (r2, w2)" by (auto simp: Cache_prune_def)
    with m Inr show ?thesis by (cases r2) (simp_all add: Cache_save_def)
  qed
next
  fix saved w'
  assume s: "Cache_save self w = Some (Inr saved, w')"
  then obtain w1 where m: "Cache_Model_save self w = (Inr saved, w1)"
    and p: "Cache_prune saved w1 = Some (Inr (), w')"
    by (auto simp: Cache_save_def split: prod.splits sum.splits option.splits)
  then show "\<exists>w1. Cache_Model_save self w = (Inr saved, w1)
              \<and> Cache_prune saved w1 = Some (Inr (), w')" by blast
  note ms = Cache_Model_save_Inr[OF m]
  from p have pl: "prune_loop saved 0 w1 = Some (Inr (), w')" by (simp add: Cache_prune_def)
  note post = prune_loop_post[OF pl]
  from ms show "maximum_size saved = maximum_size self" by simp
  from ms post show "saved \<in> set (caches w')" by simp
  from ms post show "get_total_size w' saved \<le> maximum_size self" by simp
next
  fix saved w1 e w2
  assume "Cache_Model_save self w = (Inr saved, w1)"
    and "Cache_prune saved w1 = Some (Inl e, w2)"
  then show "Cache_save self w = Some (Inl e, w2)" by (simp add: Cache_save_def)
qed

theorem save_prunes_after_persisting_witness:
  "map_option (\<lambda>(r, w'). (r, files w', get_total_size w' thumbnails))
     (Cache_save (thumbnails\<lparr>maximum_size := 2\<rparr>) full_world)
     = Some (Inr (thumbnails\<lparr>maximum_size := 2\<rparr>), [newer, foreign], 2)
   \<and> get_total_size full_world thumbnails = 4"
proof -
  have run: "map_option (\<lambda>(r, w'). (r, files w', get_total_size w' thumbnails))
     (Cache_save (thumbnails\<lparr>maximum_size := 2\<rparr>) full_world)
     = Some (Inr (thumbnails\<lparr>maximum_size := 2\<rparr>), [newer, foreign], 2)"
    by code_simp
  have before: "get_total_size full_world thumbnails = 4" by code_simp
  from run obtain w' where s: "Cache_save (thumbnails\<lparr>maximum_size := 2\<rparr>) full_world
      = Some (Inr (thumbnails\<lparr>maximum_size := 2\<rparr>), w')"
    by (cases "Cache_save (thumbnails\<lparr>maximum_size := 2\<rparr>) full_world") auto
  from save_prunes_after_persisting [of "thumbnails\<lparr>maximum_size := 2\<rparr>" full_world] s
  have "get_total_size w' (thumbnails\<lparr>maximum_size := 2\<rparr>)
          \<le> maximum_size (thumbnails\<lparr>maximum_size := 2\<rparr>)" by blast
  with run before show ?thesis by simp
qed

subsection \<open>Purging\<close>






subsection \<open>The steps of create\_file\<close>

lemma storage_save_cases:
  "storage_save st key content w = (r, w1) \<Longrightarrow>
     caches w1 = caches w \<and> partitions w1 = partitions w \<and> files w1 = files w \<and>
     registry w1 = registry w \<and> locks w1 = locks w \<and>
     clock w1 = clock w \<and> maximum_prune_attempts w1 = maximum_prune_attempts w \<and>
     (case r of Inl e \<Rightarrow> e = StorageError Save \<and> objects w1 = objects w
              | Inr u \<Rightarrow> objects w1 = (objects w)((st, key) \<mapsto> content))"
  by (auto simp: storage_save_def split: prod.splits if_splits dest: io_fault_frame)

lemma storage_open_cases:
  "storage_open st key m w = (r, w1) \<Longrightarrow>
     caches w1 = caches w \<and> partitions w1 = partitions w \<and> files w1 = files w \<and>
     registry w1 = registry w \<and> locks w1 = locks w \<and>
     clock w1 = clock w \<and> maximum_prune_attempts w1 = maximum_prune_attempts w \<and>
     (case r of Inl e \<Rightarrow> e = StorageError Open \<and> objects w1 = objects w
              | Inr h \<Rightarrow> h = (st, key) \<and> objects w (st, key) \<noteq> None \<and>
                  objects w1 = (if m = WB then (objects w)((st, key) \<mapsto> []) else objects w))"
  by (auto simp: storage_open_def split: prod.splits if_splits option.splits mode.splits
        dest: io_fault_frame)

lemma storage_size_cases:
  "storage_size st key w = (r, w1) \<Longrightarrow>
     caches w1 = caches w \<and> partitions w1 = partitions w \<and> files w1 = files w \<and>
     registry w1 = registry w \<and> locks w1 = locks w \<and> objects w1 = objects w \<and>
     clock w1 = clock w \<and> maximum_prune_attempts w1 = maximum_prune_attempts w \<and>
     (case r of Inl e \<Rightarrow> e = StorageError Size
              | Inr n \<Rightarrow> \<exists>bs. objects w (st, key) = Some bs \<and> n = length bs)"
  by (auto simp: storage_size_def split: prod.splits if_splits option.splits
        dest: io_fault_frame)

lemma stream_close_cases:
  "stream_close h w = (r, w1) \<Longrightarrow>
     caches w1 = caches w \<and> partitions w1 = partitions w \<and> files w1 = files w \<and>
     registry w1 = registry w \<and> locks w1 = locks w \<and> objects w1 = objects w \<and>
     clock w1 = clock w \<and> maximum_prune_attempts w1 = maximum_prune_attempts w \<and>
     (case r of Inl e \<Rightarrow> e = StorageError Close | Inr u \<Rightarrow> True)"
  by (auto simp: stream_close_def split: prod.splits if_splits dest: io_fault_frame)

lemma caller_body_cases:
  "caller_body act h w = (r, w1) \<Longrightarrow>
     caches w1 = caches w \<and> partitions w1 = partitions w \<and> files w1 = files w \<and>
     registry w1 = registry w \<and> locks w1 = locks w \<and>
     clock w1 = clock w \<and> maximum_prune_attempts w1 = maximum_prune_attempts w \<and>
     (case r of Inl e \<Rightarrow> (e = CallerError \<or> e = StorageError Write) \<and> objects w1 = objects w
              | Inr u \<Rightarrow> \<exists>bs old. act = Writes bs \<and> objects w h = Some old \<and>
                  objects w1 = (objects w)(h \<mapsto> old @ bs))"
  by (auto simp: caller_body_def split: prod.splits if_splits option.splits caller.splits
        dest: io_fault_frame)

lemma fold_max_ge: "x \<in> set xs \<Longrightarrow> x \<le> fold max xs (a::nat)"
proof (induction xs arbitrary: a)
  case Nil
  then show ?case by simp
next
  case (Cons y ys)
  have mono: "b \<le> fold max ys b" for b :: nat
  proof (induction ys arbitrary: b)
    case Nil
    show ?case by simp
  next
    case (Cons z zs)
    have "b \<le> max z b" by simp
    also have "\<dots> \<le> fold max zs (max z b)" by (rule Cons.IH)
    finally show ?case by simp
  qed
  show ?case
  proof (cases "x = y")
    case True
    have "y \<le> max y a" by simp
    also have "\<dots> \<le> fold max ys (max y a)" by (rule mono)
    finally show ?thesis using True by simp
  next
    case False
    with Cons.prems have "x \<in> set ys" by simp
    from Cons.IH[OF this] show ?thesis by simp
  qed
qed

lemma fresh_file_pk:
  "g \<in> set fs \<Longrightarrow> file_pk g \<noteq> Suc (fold max (map file_pk fs) 0)"
proof
  assume g: "g \<in> set fs" and eq: "file_pk g = Suc (fold max (map file_pk fs) 0)"
  from g have "file_pk g \<in> set (map file_pk fs)" by simp
  from fold_max_ge[OF this, of 0] eq show False by simp
qed

lemma files_create_cases:
  "files_create self fname w = (r, w1) \<Longrightarrow>
     (case r of
        Inl e \<Rightarrow> e = IntegrityError \<and> w1 = w \<and>
          list_ex (\<lambda>g. file_partition g = partition_pk self \<and> filename g = fname) (files w)
      | Inr pf \<Rightarrow>
          \<not> list_ex (\<lambda>g. file_partition g = partition_pk self \<and> filename g = fname) (files w) \<and>
          pf = \<lparr>file_pk = Suc (fold max (map file_pk (files w)) 0),
                file_partition = partition_pk self,
                datetime = clock w, filename = fname, file_size = 0\<rparr> \<and>
          w1 = w\<lparr>files := files w @ [pf], clock := Suc (clock w)\<rparr>)"
  by (auto simp: files_create_def Let_def split: if_splits)

lemma File_Model_delete_fresh:
  assumes "\<forall>g \<in> set fs. file_pk g \<noteq> file_pk pf"
  shows "filter (\<lambda>g. file_pk g \<noteq> file_pk pf) (fs @ [pf]) = fs"
  using assms by (induction fs) auto

lemma File_Model_save_fresh:
  assumes "\<forall>g \<in> set fs. file_pk g \<noteq> file_pk pf" and "file_pk pf' = file_pk pf"
  shows "map (\<lambda>g. if file_pk g = file_pk pf' then pf' else g) (fs @ [pf]) = fs @ [pf']"
  using assms by (induction fs) auto

lemma open_close_lock_free:
  "CachePartitionFile_open m False self w = open_body m self w"
  "CachePartitionFile_close so False self w = close_body so self w"
  "CachePartitionFile_update_size False self w = update_size_body self w"
  "CachePartitionFile_delete False self w = delete_body self w"
  by (simp_all add: CachePartitionFile_open_def CachePartitionFile_close_def
        CachePartitionFile_update_size_def CachePartitionFile_delete_def
        locked_class_method_def)

lemma file_location_rows_irrelevant [simp]:
  "file_location (w\<lparr>files := fs, clock := t\<rparr>) = file_location w"
  by (rule file_location_cong) simp_all

lemma create_file_except_Inl:
  "\<exists>e' w'. create_file_except st key pfo e w = (Inl e', w')"
  by (auto simp: create_file_except_def split: option.splits prod.splits sum.splits)

lemma create_file_try_Inr:
  assumes "create_file_try self st fname act w = (Inr u, w')"
  shows "\<exists>pf loc bs.
      files_create self fname w = (Inr pf, w\<lparr>files := files w @ [pf], clock := Suc (clock w)\<rparr>)
      \<and> file_location w pf = Inr loc \<and> act = Writes bs \<and> objects w loc \<noteq> None
      \<and> objects w' = (objects w)(loc \<mapsto> bs)
      \<and> files w' = files w @ [pf\<lparr>file_size := length bs\<rparr>]
      \<and> caches w' = caches w \<and> partitions w' = partitions w \<and> registry w' = registry w
      \<and> locks w' = locks w \<and> maximum_prune_attempts w' = maximum_prune_attempts w"
proof -
  let ?key = "get_full_filename self fname"
  obtain r1 w1 where fc: "files_create self fname w = (r1, w1)"
    by (cases "files_create self fname w")
  have r1: "\<exists>pf. r1 = Inr pf"
  proof (cases r1)
    case (Inl e)
    with assms fc create_file_except_Inl[of st ?key None e w1] show ?thesis
      by (auto simp: create_file_try_def)
  qed simp
  then obtain pf where pf: "r1 = Inr pf" by blast
  from files_create_cases[OF fc] pf
  have nodup: "\<not> list_ex (\<lambda>g. file_partition g = partition_pk self \<and> filename g = fname) (files w)"
    and pfdef: "pf = \<lparr>file_pk = Suc (fold max (map file_pk (files w)) 0),
                file_partition = partition_pk self,
                datetime = clock w, filename = fname, file_size = 0\<rparr>"
    and w1: "w1 = w\<lparr>files := files w @ [pf], clock := Suc (clock w)\<rparr>" by simp_all
  have fresh: "\<forall>g \<in> set (files w). file_pk g \<noteq> file_pk pf"
    using fresh_file_pk[of _ "files w"] by (simp add: pfdef)
  have loc1: "file_location w1 pf = file_location w pf" by (simp add: w1)
  obtain r2 w2 where op: "open_body WB pf w1 = (r2, w2)" by (cases "open_body WB pf w1")
  have r2: "\<exists>h. r2 = Inr h"
  proof (cases r2)
    case (Inl e)
    with assms fc pf op create_file_except_Inl[of st ?key "Some pf" e w2] show ?thesis
      by (auto simp: create_file_try_def open_close_lock_free)
  qed simp
  then obtain h where h: "r2 = Inr h" by blast
  from op h obtain loc where loc: "file_location w pf = Inr loc"
    by (cases "file_location w pf") (auto simp: open_body_def loc1)
  obtain st' key' where lk: "loc = (st', key')" by (cases loc)
  from op h loc lk have so: "storage_open st' key' WB w1 = (Inr h, w2)"
    by (simp add: open_body_def loc1)
  from storage_open_cases[OF so] lk
  have hl: "h = loc" and ex: "objects w1 loc \<noteq> None" and o2: "objects w2 = (objects w1)(loc \<mapsto> [])"
    and t2: "caches w2 = caches w1" "partitions w2 = partitions w1" "files w2 = files w1"
      "registry w2 = registry w1" "locks w2 = locks w1"
      "maximum_prune_attempts w2 = maximum_prune_attempts w1" by simp_all
  obtain r3 w3 where cb: "caller_body act h w2 = (r3, w3)" by (cases "caller_body act h w2")
  have r3: "\<exists>u3. r3 = Inr u3"
  proof (cases r3)
    case (Inl e)
    with assms fc pf op h cb create_file_except_Inl[of st ?key "Some pf" e w3] show ?thesis
      by (auto simp: create_file_try_def open_close_lock_free)
  qed simp
  then obtain u3 where u3: "r3 = Inr u3" by blast
  from caller_body_cases[OF cb] u3 hl o2 obtain bs
    where act: "act = Writes bs" and o3: "objects w3 = (objects w2)(loc \<mapsto> bs)"
    and t3: "caches w3 = caches w2" "partitions w3 = partitions w2" "files w3 = files w2"
      "registry w3 = registry w2" "locks w3 = locks w2"
      "maximum_prune_attempts w3 = maximum_prune_attempts w2" by auto
  obtain r4 w4 where cl: "stream_close h w3 = (r4, w4)" by (cases "stream_close h w3")
  have r4: "\<exists>u4. r4 = Inr u4"
  proof (cases r4)
    case (Inl e)
    with assms fc pf op h cb u3 cl show ?thesis
      by (auto simp: create_file_try_def open_close_lock_free close_body_def)
  qed simp
  then obtain u4 where u4: "r4 = Inr u4" by blast
  from stream_close_cases[OF cl]
  have o4: "objects w4 = objects w3"
    and t4: "caches w4 = caches w3" "partitions w4 = partitions w3" "files w4 = files w3"
      "registry w4 = registry w3" "locks w4 = locks w3"
      "maximum_prune_attempts w4 = maximum_prune_attempts w3" by simp_all
  from assms fc pf op h cb u3 cl u4
  have us: "update_size_body pf w4 = (Inr u, w')"
    by (simp add: create_file_try_def open_close_lock_free close_body_def)
  have "file_location w4 = file_location w"
    by (rule file_location_cong) (simp_all add: t4 t3 t2 w1)
  with loc lk have loc4: "file_location w4 pf = Inr (st', key')" by simp
  obtain r5 w5 where sz: "storage_size st' key' w4 = (r5, w5)"
    by (cases "storage_size st' key' w4")
  from us loc4 sz obtain n where n: "r5 = Inr n"
    and sv: "File_Model_save (pf\<lparr>file_size := n\<rparr>) w5 = (Inr u, w')"
    by (cases r5) (auto simp: update_size_body_def)
  from storage_size_cases[OF sz] n lk o4 o3
  have nlen: "n = length bs" and o5: "objects w5 = objects w4"
    and t5: "caches w5 = caches w4" "partitions w5 = partitions w4" "files w5 = files w4"
      "registry w5 = registry w4" "locks w5 = locks w4"
      "maximum_prune_attempts w5 = maximum_prune_attempts w4" by auto
  have f5: "files w5 = files w @ [pf]" by (simp add: t5 t4 t3 t2 w1)
  then have has: "list_ex (\<lambda>g. file_pk g = file_pk (pf\<lparr>file_size := n\<rparr>)) (files w5)"
    by (simp add: list_ex_iff)
  from sv has have w': "w' = w5\<lparr>files := map (\<lambda>g. if file_pk g = file_pk (pf\<lparr>file_size := n\<rparr>)
                                               then pf\<lparr>file_size := n\<rparr> else g) (files w5)\<rparr>"
    by (auto simp: File_Model_save_def split: if_splits)
  have "map (\<lambda>g. if file_pk g = file_pk (pf\<lparr>file_size := n\<rparr>)
                   then pf\<lparr>file_size := n\<rparr> else g) (files w @ [pf])
          = files w @ [pf\<lparr>file_size := n\<rparr>]"
    by (rule File_Model_save_fresh) (use fresh in simp_all)
  with w' f5 nlen have files': "files w' = files w @ [pf\<lparr>file_size := length bs\<rparr>]" by simp
  have obj': "objects w' = (objects w)(loc \<mapsto> bs)"
    by (simp add: w' o5 o4 o3 o2 w1)
  have tabs: "caches w' = caches w \<and> partitions w' = partitions w \<and> registry w' = registry w
      \<and> locks w' = locks w \<and> maximum_prune_attempts w' = maximum_prune_attempts w"
    by (simp add: w' t5 t4 t3 t2 w1)
  from ex have ex0: "objects w loc \<noteq> None" by (simp add: w1)
  from fc pf w1 have "files_create self fname w
      = (Inr pf, w\<lparr>files := files w @ [pf], clock := Suc (clock w)\<rparr>)" by simp
  with loc act ex0 obj' files' tabs show ?thesis by blast
qed

lemma delete_body_errors:
  assumes "delete_body self w = (Inl e, w1)"
  shows "e = DoesNotExist \<or> e = ImportError \<or> e = StorageError Delete"
proof (cases "file_location w self")
  case (Inl e')
  with assms have "e = e'" by (simp add: delete_body_def)
  with file_location_Inl[OF Inl] show ?thesis by auto
next
  case (Inr loc)
  obtain st key where "loc = (st, key)" by (cases loc)
  with assms Inr have del: "storage_delete st key w = (Inl e, w1)"
    by (auto simp: delete_body_def split: prod.splits sum.splits)
  from storage_delete_objects[OF del] show ?thesis by simp
qed

lemma lock_name_errors:
  "get_file_lock_name w p fname = Inl e \<Longrightarrow> e = DoesNotExist"
  "lock_manager_get_lock_name w f = Inl e \<Longrightarrow> e = DoesNotExist"
  "get_cache w k = Inl e \<Longrightarrow> e = DoesNotExist"
  by (auto simp: lock_manager_get_lock_name_def get_file_lock_name_def get_partition_def
        get_cache_def split: sum.splits option.splits)

lemma CachePartitionFile_delete_errors:
  assumes "CachePartitionFile_delete acquire self w = (Inl e, w1)"
  shows "e = LockError \<or> e = DoesNotExist \<or> e = ImportError \<or> e = StorageError Delete"
proof (cases acquire)
  case False
  with assms have "delete_body self w = (Inl e, w1)" by (simp add: open_close_lock_free)
  from delete_body_errors[OF this] show ?thesis by blast
next
  case True
  show ?thesis
  proof (cases "lock_manager_get_lock_name w self")
    case (Inl e')
    with assms True have "e = e'"
      by (simp add: CachePartitionFile_delete_def locked_class_method_def)
    with lock_name_errors(2)[OF Inl] show ?thesis by simp
  next
    case (Inr nm)
    show ?thesis
    proof (cases "nm \<in> set (locks w)")
      case held: True
      with assms True Inr show ?thesis
        by (simp add: CachePartitionFile_delete_def locked_class_method_def acquire_lock_def)
    next
      case False
      with assms True Inr obtain w2
        where "delete_body self (w\<lparr>locks := nm # locks w\<rparr>) = (Inl e, w2)"
        by (auto simp: CachePartitionFile_delete_def locked_class_method_def acquire_lock_def
              split: prod.splits)
      from delete_body_errors[OF this] show ?thesis by blast
    qed
  qed
qed

lemma prune_loop_errors:
  assumes "prune_loop self attempts w = Some y" and "fst y = Inl e"
  shows "e = RuntimeError \<or> e = DoesNotExist \<or> e = ImportError \<or> e = StorageError Delete"
  using assms
proof (induction self attempts w y rule: prune_loop.raw_induct[rotated, consumes 1])
  case (1 loop self attempts w y)
  show ?case
  proof (cases "maximum_size self < get_total_size w self")
    case False
    with 1(2,3) show ?thesis by auto
  next
    case True
    show ?thesis
    proof (cases "earliest (get_files w self)")
      case (Inl e')
      with True 1(2,3) earliest_error[OF Inl] show ?thesis by auto
    next
      case (Inr f)
      obtain r w1 where d: "CachePartitionFile_delete True f w = (r, w1)"
        by (cases "CachePartitionFile_delete True f w")
      show ?thesis
      proof (cases r)
        case r: (Inr u)
        with True Inr d 1(2) have "loop self attempts w1 = Some y" by simp
        from 1(1)[OF this 1(3)] show ?thesis .
      next
        case r: (Inl e')
        note errs = CachePartitionFile_delete_errors[OF d[unfolded r]]
        show ?thesis
        proof (cases "e' = LockError")
          case False
          with True Inr d r 1(2) have "y = (Inl e', w1)" by simp
          with errs False 1(3) show ?thesis by auto
        next
          case e: True
          show ?thesis
          proof (cases "maximum_prune_attempts w1 < attempts + 1")
            case True
            with \<open>maximum_size self < get_total_size w self\<close> Inr d r e 1(2)
            have "y = (Inl RuntimeError, w1)" by simp
            with 1(3) show ?thesis by simp
          next
            case False
            with \<open>maximum_size self < get_total_size w self\<close> Inr d r e 1(2)
            have "loop self (attempts + 1) w1 = Some y" by simp
            from 1(1)[OF this 1(3)] show ?thesis .
          qed
        qed
      qed
    qed
  qed
qed

lemma storage_errors: "storage w c = Inl e \<Longrightarrow> e = ImportError"
  by (auto simp: storage_def get_defined_storage_def DefinedStorage_get_def
        get_storage_instance_def split: sum.splits option.splits if_splits)

lemma lookups_lock_irrelevant [simp]:
  "get_cache (w\<lparr>locks := l\<rparr>) = get_cache w"
  "get_partition (w\<lparr>locks := l\<rparr>) = get_partition w"
  "storage (w\<lparr>locks := l\<rparr>) = storage w"
  by (rule ext, simp add: get_cache_def, rule ext, simp add: get_partition_def,
      rule ext, simp add: storage_def get_defined_storage_def DefinedStorage_get_def)

lemma create_file_cases:
  assumes "CachePartition_create_file self fname act w = Some (r, w')"
  shows "(\<exists>e. r = Inl e \<and> (e = LockError \<or> e = DoesNotExist \<or> e = RuntimeError \<or>
            e = ImportError \<or> e = StorageError Delete \<or> e = StorageError Save))
       \<or> (\<exists>nm c wp st wd ws w2.
            get_file_lock_name w self fname = Inr nm \<and> nm \<notin> set (locks w)
            \<and> get_cache w (partition_cache self) = Inr c
            \<and> Cache_prune c (w\<lparr>locks := nm # locks w\<rparr>) = Some (Inr (), wp)
            \<and> storage w c = Inr st
            \<and> storage_delete st (get_full_filename self fname) wp = (Inr (), wd)
            \<and> storage_save st (get_full_filename self fname) [] wd = (Inr (), ws)
            \<and> create_file_try self st fname act ws = (r, w2)
            \<and> w' = release nm w2)"
proof (cases "get_file_lock_name w self fname")
  case (Inl e)
  with assms lock_name_errors(1)[OF Inl] show ?thesis
    by (auto simp: CachePartition_create_file_def)
next
  case nm: (Inr nm)
  show ?thesis
  proof (cases "nm \<in> set (locks w)")
    case True
    with assms nm show ?thesis
      by (auto simp: CachePartition_create_file_def acquire_lock_def)
  next
    case free: False
    let ?w1 = "w\<lparr>locks := nm # locks w\<rparr>"
    from assms nm free obtain w2 where lk: "create_file_locked self fname act ?w1 = Some (r, w2)"
      and w': "w' = release nm w2"
      by (auto simp: CachePartition_create_file_def acquire_lock_def
            split: option.splits prod.splits)
    show ?thesis
    proof (cases "get_cache w (partition_cache self)")
      case (Inl e)
      with lk lock_name_errors(3)[OF Inl] show ?thesis
        by (auto simp: create_file_locked_def)
    next
      case c: (Inr c)
      obtain rp wp where pr: "Cache_prune c ?w1 = Some (rp, wp)"
        using prune_loop_terminates[of c 0 ?w1] by (auto simp: Cache_prune_def)
      then have pl: "prune_loop c 0 ?w1 = Some (rp, wp)" by (simp add: Cache_prune_def)
      show ?thesis
      proof (cases rp)
        case (Inl e)
        with lk c pr have "r = Inl e" by (simp add: create_file_locked_def)
        with prune_loop_errors[OF pl, of e] Inl show ?thesis by auto
      next
        case rp: (Inr up)
        from prune_loop_post[OF pl] have "registry wp = registry ?w1" by simp
        then have "storage wp = storage ?w1" by (rule storage_cong)
        then have st_eq: "storage wp c = storage w c" by simp
        show ?thesis
        proof (cases "storage w c")
          case (Inl e)
          with lk c pr rp st_eq storage_errors[OF Inl] show ?thesis
            by (auto simp: create_file_locked_def)
        next
          case st: (Inr st)
          obtain rd wd where sd: "storage_delete st (get_full_filename self fname) wp = (rd, wd)"
            by (cases "storage_delete st (get_full_filename self fname) wp")
          show ?thesis
          proof (cases rd)
            case (Inl e)
            with lk c pr rp st_eq st sd storage_delete_objects[OF sd] show ?thesis
              by (auto simp: create_file_locked_def)
          next
            case rd: (Inr ud)
            obtain rs ws where ss: "storage_save st (get_full_filename self fname) [] wd = (rs, ws)"
              by (cases "storage_save st (get_full_filename self fname) [] wd")
            show ?thesis
            proof (cases rs)
              case (Inl e)
              with lk c pr rp st_eq st sd rd ss storage_save_cases[OF ss] show ?thesis
                by (auto simp: create_file_locked_def)
            next
              case rs: (Inr us)
              with lk c pr rp st_eq st sd rd ss
              have "create_file_try self st fname act ws = (r, w2)"
                by (simp add: create_file_locked_def)
              with nm free c pr rp st sd rd ss rs w' show ?thesis by simp
            qed
          qed
        qed
      qed
    qed
  qed
qed

lemma new_file_location:
  assumes "get_partition w (partition_pk self) = Inr self"
    and "get_cache w (partition_cache self) = Inr c"
    and "storage w c = Inr st"
    and "file_partition pf = partition_pk self"
  shows "file_location w pf = Inr (st, get_full_filename self (filename pf))"
  using assms by (simp add: file_location_def get_full_filename_def)

lemma create_file_try_Inl:
  assumes run: "create_file_try self st fname act w = (Inl e, w')"
    and orig: "e = IntegrityError \<or> e = CallerError \<or> e = StorageError Open \<or> e = StorageError Write"
    and self: "get_partition w (partition_pk self) = Inr self"
    and c: "get_cache w (partition_cache self) = Inr c"
    and st: "storage w c = Inr st"
  shows "objects w' = (objects w)((st, get_full_filename self fname) := None)
       \<and> files w' = files w \<and> locks w' = locks w
       \<and> caches w' = caches w \<and> partitions w' = partitions w \<and> registry w' = registry w
       \<and> (e = IntegrityError \<longleftrightarrow>
            list_ex (\<lambda>g. file_partition g = partition_pk self \<and> filename g = fname) (files w))"
proof -
  let ?key = "get_full_filename self fname"
  let ?dup = "list_ex (\<lambda>g. file_partition g = partition_pk self \<and> filename g = fname) (files w)"
  obtain r1 w1 where fc: "files_create self fname w = (r1, w1)"
    by (cases "files_create self fname w")
  show ?thesis
  proof (cases r1)
    case (Inl e1)
    from files_create_cases[OF fc] Inl have e1: "e1 = IntegrityError" and w1: "w1 = w" and dup: ?dup
      by simp_all
    obtain rd wd where sd: "storage_delete st ?key w = (rd, wd)"
      by (cases "storage_delete st ?key w")
    from run fc Inl e1 w1 sd have res: "(Inl e, w') = (case rd of Inl e' \<Rightarrow> (Inl e', wd)
                                                       | Inr u \<Rightarrow> (Inl IntegrityError, wd))"
      by (simp add: create_file_try_def create_file_except_def split: sum.splits)
    show ?thesis
    proof (cases rd)
      case (Inl e')
      with res storage_delete_objects[OF sd] orig show ?thesis by simp
    next
      case (Inr u)
      with res have "e = IntegrityError" and "w' = wd" by simp_all
      with storage_delete_frame[OF sd] storage_delete_objects[OF sd] Inr dup
      show ?thesis by simp
    qed
  next
    case (Inr pf)
    from files_create_cases[OF fc] Inr
    have nodup: "\<not> ?dup"
      and pfdef: "pf = \<lparr>file_pk = Suc (fold max (map file_pk (files w)) 0),
                file_partition = partition_pk self,
                datetime = clock w, filename = fname, file_size = 0\<rparr>"
      and w1: "w1 = w\<lparr>files := files w @ [pf], clock := Suc (clock w)\<rparr>" by simp_all
    have fresh: "\<forall>g \<in> set (files w). file_pk g \<noteq> file_pk pf"
      using fresh_file_pk[of _ "files w"] by (simp add: pfdef)
    have "file_location w pf = Inr (st, get_full_filename self (filename pf))"
      using self c st by (rule new_file_location) (simp add: pfdef)
    then have loc: "file_location w pf = Inr (st, ?key)" by (simp add: pfdef)
    \<comment> \<open>the handler, run in any world that has the tables of \<open>w1\<close>\<close>
    have handler: "objects wy = (objects wx)((st, ?key) := None) \<and> files wy = files w
          \<and> locks wy = locks w \<and> caches wy = caches w \<and> partitions wy = partitions w
          \<and> registry wy = registry w \<and> e = ex"
      if tabs: "caches wx = caches w" "partitions wx = partitions w" "files wx = files w @ [pf]"
          "registry wx = registry w" "locks wx = locks w"
        and hx: "create_file_except st ?key (Some pf) ex wx = (Inl e, wy)"
      for wx wy ex
    proof -
      have "file_location wx = file_location w"
        by (rule file_location_cong) (simp_all add: tabs)
      with loc have locx: "file_location wx pf = Inr (st, ?key)" by simp
      obtain rd wd where sd: "storage_delete st ?key wx = (rd, wd)"
        by (cases "storage_delete st ?key wx")
      show ?thesis
      proof (cases rd)
        case (Inl e')
        with hx locx sd have "e = e'"
          by (simp add: create_file_except_def open_close_lock_free delete_body_def)
        with Inl storage_delete_objects[OF sd] orig show ?thesis by simp
      next
        case (Inr u)
        with hx locx sd have "e = ex" and wy: "wy = File_Model_delete pf wd"
          by (simp_all add: create_file_except_def open_close_lock_free delete_body_def)
        moreover from storage_delete_frame[OF sd] tabs wy
        have "files wy = filter (\<lambda>g. file_pk g \<noteq> file_pk pf) (files w @ [pf])"
          by (simp add: File_Model_delete_def)
        with File_Model_delete_fresh[OF fresh] have "files wy = files w" by simp
        moreover from storage_delete_frame[OF sd] storage_delete_objects[OF sd] Inr tabs wy
        have "objects wy = (objects wx)((st, ?key) := None) \<and> locks wy = locks w
              \<and> caches wy = caches w \<and> partitions wy = partitions w \<and> registry wy = registry w"
          by (simp add: File_Model_delete_def)
        ultimately show ?thesis by simp
      qed
    qed
    have loc1: "file_location w1 pf = Inr (st, ?key)" using loc by (simp add: w1)
    obtain r2 w2 where so: "storage_open st ?key WB w1 = (r2, w2)"
      by (cases "storage_open st ?key WB w1")
    note o = storage_open_cases[OF so]
    have t2: "caches w2 = caches w" "partitions w2 = partitions w" "files w2 = files w @ [pf]"
        "registry w2 = registry w" "locks w2 = locks w"
      using o by (simp_all add: w1)
    show ?thesis
    proof (cases r2)
      case (Inl e2)
      with run fc Inr loc1 so
      have "create_file_except st ?key (Some pf) e2 w2 = (Inl e, w')"
        by (simp add: create_file_try_def open_close_lock_free open_body_def)
      from handler[OF t2 this] o Inl nodup show ?thesis by (auto simp: w1)
    next
      case h: (Inr h)
      with o have hk: "h = (st, ?key)"
        and o2: "objects w2 = (objects w1)((st, ?key) \<mapsto> [])" by simp_all
      obtain r3 w3 where cb: "caller_body act h w2 = (r3, w3)" by (cases "caller_body act h w2")
      note cbc = caller_body_cases[OF cb]
      have t3: "caches w3 = caches w" "partitions w3 = partitions w" "files w3 = files w @ [pf]"
          "registry w3 = registry w" "locks w3 = locks w"
        using cbc t2 by simp_all
      show ?thesis
      proof (cases r3)
        case (Inl e3)
        with run fc Inr loc1 so h cb
        have "create_file_except st ?key (Some pf) e3 w3 = (Inl e, w')"
          by (simp add: create_file_try_def open_close_lock_free open_body_def)
        from handler[OF t3 this] cbc Inl o2 nodup show ?thesis by (auto simp: w1)
      next
        case u3: (Inr u3)
        obtain r4 w4 where cl: "stream_close h w3 = (r4, w4)" by (cases "stream_close h w3")
        note clc = stream_close_cases[OF cl]
        show ?thesis
        proof (cases r4)
          case (Inl e4)
          with run fc Inr loc1 so h cb u3 cl have "e = e4"
            by (simp add: create_file_try_def open_close_lock_free open_body_def close_body_def)
          with clc Inl orig show ?thesis by simp
        next
          case u4: (Inr u4)
          with run fc Inr loc1 so h cb u3 cl
          have us: "update_size_body pf w4 = (Inl e, w')"
            by (simp add: create_file_try_def open_close_lock_free open_body_def close_body_def)
          have "file_location w4 = file_location w"
            by (rule file_location_cong) (use clc t3 in simp_all)
          with loc have loc4: "file_location w4 pf = Inr (st, ?key)" by simp
          obtain r5 w5 where sz: "storage_size st ?key w4 = (r5, w5)"
            by (cases "storage_size st ?key w4")
          note szc = storage_size_cases[OF sz]
          show ?thesis
          proof (cases r5)
            case (Inl e5)
            with us loc4 sz have "e = e5" by (simp add: update_size_body_def)
            with szc Inl orig show ?thesis by simp
          next
            case (Inr n)
            with us loc4 sz have sv: "File_Model_save (pf\<lparr>file_size := n\<rparr>) w5 = (Inl e, w')"
              by (simp add: update_size_body_def)
            have f5: "files w5 = files w @ [pf]" using szc clc t3 by simp
            have "\<not> list_ex (\<lambda>g. file_pk g \<noteq> file_pk (pf\<lparr>file_size := n\<rparr>)
                        \<and> file_partition g = file_partition (pf\<lparr>file_size := n\<rparr>)
                        \<and> filename g = filename (pf\<lparr>file_size := n\<rparr>)) (files w5)"
              using nodup by (auto simp: f5 list_ex_iff pfdef)
            with sv show ?thesis by (simp add: File_Model_save_def split: if_splits)
          qed
        qed
      qed
    qed
  qed
qed

subsection \<open>The size bound\<close>

lemma get_total_size_append:
  assumes "files w2 = files w1 @ [g]" and "partitions w2 = partitions w1"
  shows "get_total_size w2 c \<le> get_total_size w1 c + int (file_size g)"
  using assms by (simp add: get_total_size_def get_files_def)

text \<open>
  C1, as the code has it. Two writes that each fit the cache can leave it above its
  maximum when both have returned: prune runs before the new bytes are admitted, not
  after them.
\<close>

theorem size_bound_counterexample:
  "map_option fst
     (CachePartition_create_file pages ''a'' (Writes ''xx'') empty_world) = Some (Inr ())
   \<and> map_option fst
       (Option.bind (CachePartition_create_file pages ''a'' (Writes ''xx'') empty_world)
          (CachePartition_create_file pages ''b'' (Writes ''yy'') \<circ> snd)) = Some (Inr ())
   \<and> map_option (total_size_in thumbnails \<circ> snd)
       (Option.bind (CachePartition_create_file pages ''a'' (Writes ''xx'') empty_world)
          (CachePartition_create_file pages ''b'' (Writes ''yy'') \<circ> snd)) = Some 4
   \<and> maximum_size thumbnails = 3"
  by code_simp

text \<open>
  C1, amended. When \<^verbatim>\<open>create_file\<close> returns normally, the total size of the cache is at
  most its maximum plus the number of bytes this call wrote: prune had brought the total
  down to the maximum before the file was admitted. When prune raises instead, so does
  \<^verbatim>\<open>create_file\<close>, with the lock released.
\<close>

theorem create_file_size_bound:
  assumes "get_cache w (partition_cache self) = Inr c"
  shows "(\<forall>u w'. CachePartition_create_file self fname act w = Some (Inr u, w') \<longrightarrow>
            (\<exists>bs. act = Writes bs \<and> get_total_size w' c \<le> maximum_size c + int (length bs)))
       \<and> (\<forall>nm e wp. get_file_lock_name w self fname = Inr nm \<longrightarrow> nm \<notin> set (locks w) \<longrightarrow>
            Cache_prune c (w\<lparr>locks := nm # locks w\<rparr>) = Some (Inl e, wp) \<longrightarrow>
            CachePartition_create_file self fname act w = Some (Inl e, release nm wp))"
proof (intro conjI allI impI)
  fix u w'
  assume run: "CachePartition_create_file self fname act w = Some (Inr u, w')"
  from create_file_cases[OF run] assms obtain nm wp st wd ws w2
    where pr: "Cache_prune c (w\<lparr>locks := nm # locks w\<rparr>) = Some (Inr (), wp)"
      and sd: "storage_delete st (get_full_filename self fname) wp = (Inr (), wd)"
      and ss: "storage_save st (get_full_filename self fname) [] wd = (Inr (), ws)"
      and tr: "create_file_try self st fname act ws = (Inr u, w2)"
      and w': "w' = release nm w2" by auto
  from pr have pl: "prune_loop c 0 (w\<lparr>locks := nm # locks w\<rparr>) = Some (Inr (), wp)"
    by (simp add: Cache_prune_def)
  from prune_loop_post[OF pl] have bound: "get_total_size wp c \<le> maximum_size c" by simp
  from storage_delete_frame[OF sd] storage_save_cases[OF ss]
  have "partitions ws = partitions wp" and "files ws = files wp" by simp_all
  then have "get_total_size ws = get_total_size wp" by (rule get_total_size_cong)
  with bound have bound_s: "get_total_size ws c \<le> maximum_size c" by simp
  from create_file_try_Inr[OF tr] obtain pf bs where act: "act = Writes bs"
    and fl: "files w2 = files ws @ [pf\<lparr>file_size := length bs\<rparr>]"
    and pt: "partitions w2 = partitions ws" by blast
  from get_total_size_append[OF fl pt, of c]
  have "get_total_size w2 c \<le> get_total_size ws c + int (length bs)" by simp
  moreover have "get_total_size w' = get_total_size w2"
    by (rule get_total_size_cong) (simp_all add: w')
  ultimately have "get_total_size w' c \<le> maximum_size c + int (length bs)"
    using bound_s by simp
  with act show "\<exists>bs. act = Writes bs \<and> get_total_size w' c \<le> maximum_size c + int (length bs)"
    by blast
next
  fix nm e wp
  assume "get_file_lock_name w self fname = Inr nm" and "nm \<notin> set (locks w)"
    and "Cache_prune c (w\<lparr>locks := nm # locks w\<rparr>) = Some (Inl e, wp)"
  with assms show "CachePartition_create_file self fname act w = Some (Inl e, release nm wp)"
    by (simp add: CachePartition_create_file_def acquire_lock_def create_file_locked_def)
qed

theorem create_file_size_bound_witness:
  "get_cache full_world (partition_cache pages) = Inr thumbnails
   \<and> map_option fst (CachePartition_create_file pages ''n'' (Writes ''zzz'') full_world)
       = Some (Inr ())
   \<and> map_option (total_size_in thumbnails \<circ> snd)
       (CachePartition_create_file pages ''n'' (Writes ''zzz'') full_world) = Some 5
   \<and> maximum_size thumbnails + int (length ''zzz'') = 6"
proof -
  have c: "get_cache full_world (partition_cache pages) = Inr thumbnails" by code_simp
  have ok: "map_option fst (CachePartition_create_file pages ''n'' (Writes ''zzz'') full_world)
       = Some (Inr ())" by code_simp
  have tot: "map_option (total_size_in thumbnails \<circ> snd)
       (CachePartition_create_file pages ''n'' (Writes ''zzz'') full_world) = Some 5"
    by code_simp
  have m: "maximum_size thumbnails + int (length ''zzz'') = 6" by (simp add: thumbnails_def)
  from ok obtain w' where run:
    "CachePartition_create_file pages ''n'' (Writes ''zzz'') full_world = Some (Inr (), w')"
    by (cases "CachePartition_create_file pages ''n'' (Writes ''zzz'') full_world") auto
  from create_file_size_bound [OF c, of "''n''" "Writes ''zzz''"] run
  have "get_total_size w' thumbnails \<le> maximum_size thumbnails + int (length ''zzz'')"
    by auto
  with c ok tot m show ?thesis by blast
qed

subsection \<open>Cleaning up after a failed write\<close>

text \<open>
  C2, as the code has it. The second \<^verbatim>\<open>create_file\<close> of a filename fails on the
  uniqueness of partition and filename after the lock was acquired; on exit the record
  made by the first call is still in the table.
\<close>

theorem atomicity_counterexample:
  "map_option fst
     (Option.bind (CachePartition_create_file pages ''a'' (Writes ''xx'') empty_world)
        (CachePartition_create_file pages ''a'' (Writes ''yy'') \<circ> snd))
     = Some (Inl IntegrityError)
   \<and> map_option (map filename \<circ> files \<circ> snd)
       (Option.bind (CachePartition_create_file pages ''a'' (Writes ''xx'') empty_world)
          (CachePartition_create_file pages ''a'' (Writes ''yy'') \<circ> snd))
       = Some [''a'']
   \<and> map_option (map file_partition \<circ> files \<circ> snd)
       (Option.bind (CachePartition_create_file pages ''a'' (Writes ''xx'') empty_world)
          (CachePartition_create_file pages ''a'' (Writes ''yy'') \<circ> snd))
       = Some [partition_pk pages]"
  by code_simp

text \<open>
  C2, amended. When \<^verbatim>\<open>create_file\<close> raises an exception of the record creation, of the
  opening of the stream or of the caller's block (these are the exceptions that the
  handler raises again after its cleanup), then on exit the backend object at the
  combined key is absent, the lock is released and no record was added to the table. A
  record of that partition and filename is in the table on exit exactly when the
  exception is the uniqueness failure: it is the record that was there before the call.
\<close>

theorem create_file_cleanup_on_failure:
  assumes run: "CachePartition_create_file self fname act w = Some (Inl e, w')"
    and orig: "e = IntegrityError \<or> e = CallerError \<or> e = StorageError Open \<or> e = StorageError Write"
    and self: "get_partition w (partition_pk self) = Inr self"
    and c: "get_cache w (partition_cache self) = Inr c"
    and st: "storage w c = Inr st"
  shows "objects w' (st, get_full_filename self fname) = None
       \<and> locks w' = locks w
       \<and> set (files w') \<subseteq> set (files w)
       \<and> (list_ex (\<lambda>g. file_partition g = partition_pk self \<and> filename g = fname) (files w')
            \<longleftrightarrow> e = IntegrityError)"
proof -
  let ?key = "get_full_filename self fname"
  from create_file_cases[OF run] orig c st obtain nm wp wd ws w2
    where free: "nm \<notin> set (locks w)"
      and pr: "Cache_prune c (w\<lparr>locks := nm # locks w\<rparr>) = Some (Inr (), wp)"
      and sd: "storage_delete st ?key wp = (Inr (), wd)"
      and ss: "storage_save st ?key [] wd = (Inr (), ws)"
      and tr: "create_file_try self st fname act ws = (Inl e, w2)"
      and w': "w' = release nm w2" by auto
  from pr have pl: "prune_loop c 0 (w\<lparr>locks := nm # locks w\<rparr>) = Some (Inr (), wp)"
    by (simp add: Cache_prune_def)
  note post = prune_loop_post[OF pl]
  note fd = storage_delete_frame[OF sd] and fs = storage_save_cases[OF ss]
  have tabs: "caches ws = caches w" "partitions ws = partitions w" "registry ws = registry w"
      "files ws = files wp" "locks ws = nm # locks w"
    using post fd fs by simp_all
  have "get_partition ws = get_partition w" by (rule get_partition_cong) (rule tabs)
  with self have self': "get_partition ws (partition_pk self) = Inr self" by simp
  have "get_cache ws = get_cache w" by (rule get_cache_cong) (rule tabs)
  with c have c': "get_cache ws (partition_cache self) = Inr c" by simp
  have "storage ws = storage w" by (rule storage_cong) (rule tabs)
  with st have st': "storage ws c = Inr st" by simp
  note t = create_file_try_Inl[OF tr orig self' c' st']
  from t w' have "objects w' (st, ?key) = None" by simp
  moreover from t w' tabs free have "locks w' = locks w" by simp
  moreover from t w' tabs post have "set (files w') \<subseteq> set (files w)" by simp
  moreover from t w' have "list_ex (\<lambda>g. file_partition g = partition_pk self \<and> filename g = fname)
      (files w') \<longleftrightarrow> e = IntegrityError" by simp
  ultimately show ?thesis by blast
qed

theorem create_file_cleanup_on_failure_witness:
  "map_option fst (CachePartition_create_file pages ''n'' Raises full_world)
     = Some (Inl CallerError)
   \<and> get_partition full_world (partition_pk pages) = Inr pages
   \<and> get_cache full_world (partition_cache pages) = Inr thumbnails
   \<and> storage full_world thumbnails = Inr ''disk''
   \<and> map_option (read_object (''disk'', get_full_filename pages ''n'') \<circ> snd)
       (CachePartition_create_file pages ''n'' Raises full_world) = Some None
   \<and> map_option (map filename \<circ> files \<circ> snd)
       (CachePartition_create_file pages ''n'' Raises full_world) = Some [''b'', ''c'']"
proof -
  have r: "map_option fst (CachePartition_create_file pages ''n'' Raises full_world)
     = Some (Inl CallerError)" by code_simp
  have p: "get_partition full_world (partition_pk pages) = Inr pages" by code_simp
  have c: "get_cache full_world (partition_cache pages) = Inr thumbnails" by code_simp
  have s: "storage full_world thumbnails = Inr ''disk''" by code_simp
  have fl: "map_option (map filename \<circ> files \<circ> snd)
       (CachePartition_create_file pages ''n'' Raises full_world) = Some [''b'', ''c'']"
    by code_simp
  from r obtain w' where run:
    "CachePartition_create_file pages ''n'' Raises full_world = Some (Inl CallerError, w')"
    by (cases "CachePartition_create_file pages ''n'' Raises full_world") auto
  have "CallerError = IntegrityError \<or> CallerError = CallerError
        \<or> CallerError = StorageError Open \<or> CallerError = StorageError Write" by simp
  from create_file_cleanup_on_failure [OF run this p c s]
  have "objects w' (''disk'', get_full_filename pages ''n'') = None" by blast
  with run have "map_option (read_object (''disk'', get_full_filename pages ''n'') \<circ> snd)
       (CachePartition_create_file pages ''n'' Raises full_world) = Some None"
    by (simp add: read_object_def)
  with r p c s fl show ?thesis by blast
qed

subsection \<open>Writing a filename again\<close>







end
